theory Spec2Isabelle
  imports Complex_Main
begin

section \<open>The Python library functions that \<open>fix_timestamp.py\<close> calls\<close>

text \<open>
  A Python \<open>str\<close> is a sequence of Unicode code points, here a list of natural numbers.
  \<open>lit\<close> gives the code points of a literal of the source, which is ASCII throughout.
\<close>

type_synonym str = "nat list"

definition lit :: "string \<Rightarrow> str" where
  "lit s = map of_char s"

definition LF :: nat where
  "LF = 0x0A"

definition APOSTROPHE :: nat where
  "APOSTROPHE = 0x27"

text \<open>
  The class \<open>\s\<close> of \<open>re\<close> on a \<open>str\<close> pattern: the code points for which
  \<open>str.isspace\<close> holds.
\<close>

definition is_space :: "nat \<Rightarrow> bool" where
  "is_space c \<longleftrightarrow> c \<in> set [0x09, 0x0A, 0x0B, 0x0C, 0x0D, 0x1C, 0x1D, 0x1E, 0x1F, 0x20, 0x85, 0xA0,
      0x1680, 0x2000, 0x2001, 0x2002, 0x2003, 0x2004, 0x2005, 0x2006, 0x2007, 0x2008, 0x2009,
      0x200A, 0x2028, 0x2029, 0x202F, 0x205F, 0x3000]"

text \<open>
  The white space that \<open>int()\<close> skips around a literal: the file, group, record and unit
  separators \<open>0x1C\<close> .. \<open>0x1F\<close> are white space for \<open>re\<close> but not for \<open>int()\<close>.
\<close>

definition is_int_space :: "nat \<Rightarrow> bool" where
  "is_int_space c \<longleftrightarrow> c \<in> set [0x09, 0x0A, 0x0B, 0x0C, 0x0D, 0x20, 0x85, 0xA0,
      0x1680, 0x2000, 0x2001, 0x2002, 0x2003, 0x2004, 0x2005, 0x2006, 0x2007, 0x2008, 0x2009,
      0x200A, 0x2028, 0x2029, 0x202F, 0x205F, 0x3000]"

text \<open>
  The class \<open>\d\<close> of a \<open>str\<close> pattern, which is also what \<open>int()\<close> reads as a digit: the
  decimal digits of Unicode (general category \<open>Nd\<close>; the character database 14.0 of
  Python 3.11 has 660 of them).  They stand in runs of ten, from the digit zero of a
  script to its digit nine; \<open>digit_zeros\<close> lists the zeros.
\<close>

definition digit_zeros :: "nat list" where
  "digit_zeros = [0x30, 0x660, 0x6F0, 0x7C0, 0x966, 0x9E6, 0xA66, 0xAE6, 0xB66, 0xBE6, 0xC66,
      0xCE6, 0xD66, 0xDE6, 0xE50, 0xED0, 0xF20, 0x1040, 0x1090, 0x17E0, 0x1810, 0x1946, 0x19D0,
      0x1A80, 0x1A90, 0x1B50, 0x1BB0, 0x1C40, 0x1C50, 0xA620, 0xA8D0, 0xA900, 0xA9D0, 0xA9F0,
      0xAA50, 0xABF0, 0xFF10, 0x104A0, 0x10D30, 0x11066, 0x110F0, 0x11136, 0x111D0, 0x112F0,
      0x11450, 0x114D0, 0x11650, 0x116C0, 0x11730, 0x118E0, 0x11950, 0x11C50, 0x11D50, 0x11DA0,
      0x16A60, 0x16AC0, 0x16B50, 0x1D7CE, 0x1D7D8, 0x1D7E2, 0x1D7EC, 0x1D7F6, 0x1E140, 0x1E2F0,
      0x1E950, 0x1FBF0]"

definition digit_zero :: "nat \<Rightarrow> nat option" where
  "digit_zero c = find (\<lambda>z. z \<le> c \<and> c < z + 10) digit_zeros"

definition is_digit :: "nat \<Rightarrow> bool" where
  "is_digit c \<longleftrightarrow> digit_zero c \<noteq> None"

definition digit_val :: "nat \<Rightarrow> nat" where
  "digit_val c = (case digit_zero c of None \<Rightarrow> 0 | Some z \<Rightarrow> c - z)"

subsection \<open>\<open>str.split(sep)\<close> with a one-character separator\<close>

fun py_split :: "nat \<Rightarrow> str \<Rightarrow> str list" where
  "py_split sep [] = [[]]"
| "py_split sep (c # cs) =
     (if c = sep then [] # py_split sep cs
      else (case py_split sep cs of [] \<Rightarrow> [[c]] | p # ps \<Rightarrow> (c # p) # ps))"

subsection \<open>\<open>int(s)\<close> on a string\<close>

text \<open>
  \<open>int()\<close> strips white space at both ends, takes one optional sign, and then wants decimal
  digits, where single underscores may stand between two digits.  A literal of more than
  \<open>sys.get_int_max_str_digits()\<close> digits, 4300 unless configured otherwise, is refused.
  Anything else raises \<open>ValueError\<close> too, here \<open>None\<close>.
\<close>

definition int_max_str_digits :: nat where
  "int_max_str_digits = 4300"

definition py_strip :: "str \<Rightarrow> str" where
  "py_strip s = rev (dropWhile is_int_space (rev (dropWhile is_int_space s)))"

fun int_digits :: "nat \<Rightarrow> str \<Rightarrow> nat option" where
  "int_digits acc [] = None"
| "int_digits acc [c] = (if is_digit c then Some (10 * acc + digit_val c) else None)"
| "int_digits acc (c # d # cs) =
     (if \<not> is_digit c then None
      else if d = of_char (CHR ''_'') then int_digits (10 * acc + digit_val c) cs
      else int_digits (10 * acc + digit_val c) (d # cs))"

definition int_literal :: "str \<Rightarrow> nat option" where
  "int_literal body =
     (if int_max_str_digits < length (filter is_digit body) then None else int_digits 0 body)"

definition py_int :: "str \<Rightarrow> int option" where
  "py_int s =
     (case py_strip s of
        [] \<Rightarrow> None
      | c # cs \<Rightarrow>
          if c = of_char (CHR ''-'') then map_option (\<lambda>n. - int n) (int_literal cs)
          else if c = of_char (CHR ''+'') then map_option int (int_literal cs)
          else map_option int (int_literal (c # cs)))"

subsection \<open>The format specifications \<open>02d\<close> and \<open>03d\<close>\<close>

text \<open>The decimal digits of a natural number, in ASCII.\<close>

fun str_nat :: "nat \<Rightarrow> str" where
  "str_nat n = (if n < 10 then [of_char (CHR ''0'') + n]
                else str_nat (n div 10) @ [of_char (CHR ''0'') + n mod 10])"

declare str_nat.simps [simp del]

definition zfill :: "nat \<Rightarrow> str \<Rightarrow> str" where
  "zfill w s = replicate (w - length s) (of_char (CHR ''0'')) @ s"

text \<open>\<open>format(n, '0wd')\<close>: the sign counts in the width and stands before the zeros.\<close>

definition fmt_d :: "nat \<Rightarrow> int \<Rightarrow> str" where
  "fmt_d w n = (if n < 0 then of_char (CHR ''-'') # zfill (w - 1) (str_nat (nat (- n)))
                else zfill w (str_nat (nat n)))"

subsection \<open>\<open>datetime.timedelta\<close>\<close>

text \<open>
  A \<open>timedelta\<close> is an exact number of microseconds, kept as days, seconds and
  microseconds with the days between \<open>-999999999\<close> and \<open>999999999\<close>.  The constructor
  and the addition raise \<open>OverflowError\<close> beyond that.
\<close>

type_synonym timedelta = int

datatype error = ValueError str | OverflowError

definition td_min :: timedelta where
  "td_min = - 999999999 * 86400000000"

definition td_max :: timedelta where
  "td_max = 999999999 * 86400000000 + 86399999999"

definition td_in_range :: "int \<Rightarrow> bool" where
  "td_in_range us \<longleftrightarrow> td_min \<le> us \<and> us \<le> td_max"

text \<open>\<open>timedelta(hours=hh, minutes=mm, seconds=ss, milliseconds=millis)\<close> of integers.\<close>

definition timedelta_of :: "int \<Rightarrow> int \<Rightarrow> int \<Rightarrow> int \<Rightarrow> error + timedelta" where
  "timedelta_of hh mm ss millis =
     (let us = ((hh * 60 + mm) * 60 + ss) * 1000000 + millis * 1000
      in if td_in_range us then Inr us else Inl OverflowError)"

text \<open>\<open>a + b\<close> on two \<open>timedelta\<close>s.\<close>

definition td_add :: "timedelta \<Rightarrow> timedelta \<Rightarrow> error + timedelta" where
  "td_add a b = (if td_in_range (a + b) then Inr (a + b) else Inl OverflowError)"

subsection \<open>Binary floating point\<close>

text \<open>
  A \<open>float\<close> is the rational number it stands for.  \<open>fl x\<close> is the double nearest to
  \<open>x\<close>, ties to the even significand of 53 bits; every value that a \<open>timedelta\<close> in
  range gives to the operations below lies far inside the normal range of the doubles, so
  that neither an infinity nor a subnormal number occurs.
\<close>

fun bit_length :: "nat \<Rightarrow> nat" where
  "bit_length n = (if n = 0 then 0 else Suc (bit_length (n div 2)))"

declare bit_length.simps [simp del]

text \<open>\<open>round(y)\<close> of a \<open>float\<close>: the nearest integer, a tie goes to the even one.\<close>

definition py_round :: "rat \<Rightarrow> int" where
  "py_round y = (let f = \<lfloor>y\<rfloor>; r = y - of_int f in
     if r < 1 / 2 then f else if 1 / 2 < r then f + 1 else if even f then f else f + 1)"

text \<open>The binary exponent: \<open>2 powi ilog2 x \<le> \<bar>x\<bar> < 2 powi (ilog2 x + 1)\<close>.\<close>

definition ilog2 :: "rat \<Rightarrow> int" where
  "ilog2 x = (let (p, q) = quotient_of \<bar>x\<bar>;
                  e0 = int (bit_length (nat p)) - int (bit_length (nat q))
              in if 2 powi e0 \<le> \<bar>x\<bar> then e0 else e0 - 1)"

definition fl :: "rat \<Rightarrow> rat" where
  "fl x = (if x = 0 then 0
           else let ulp = 2 powi (ilog2 x - 52) in of_int (py_round (x / ulp)) * ulp)"

text \<open>\<open>td.total_seconds()\<close>: the microseconds divided by \<open>10**6\<close>, correctly rounded.\<close>

definition total_seconds :: "timedelta \<Rightarrow> rat" where
  "total_seconds td = fl (of_int td / 1000000)"

section \<open>\<open>fix_timestamp.py\<close>\<close>

subsection \<open>\<open>TIME_RE\<close>\<close>

text \<open>
  \<open>conforms t s\<close>: the string \<open>s\<close> has the shape of the template \<open>t\<close>, where a \<open>d\<close> in the
  template stands for \<open>\d\<close> and every other character for itself.
\<close>

fun conforms :: "string \<Rightarrow> str \<Rightarrow> bool" where
  "conforms [] s \<longleftrightarrow> s = []"
| "conforms (t # ts) [] \<longleftrightarrow> False"
| "conforms (t # ts) (c # cs) \<longleftrightarrow>
     (if t = CHR ''d'' then is_digit c else c = of_char t) \<and> conforms ts cs"

text \<open>
  \<open>(?:\d{2}:)?\d{2}:\d{2}\.\d{3}\<close> at the head of \<open>s\<close>: the matched text and what follows
  it.  The optional group is tried first; the two forms differ in their sixth character,
  so at most one of them matches.
\<close>

definition timestamp_at :: "str \<Rightarrow> (str \<times> str) option" where
  "timestamp_at s =
     (if conforms ''dd:dd:dd.ddd'' (take 12 s) then Some (take 12 s, drop 12 s)
      else if conforms ''dd:dd.ddd'' (take 9 s) then Some (take 9 s, drop 9 s)
      else None)"

text \<open>
  \<open>TIME_RE.match(line)\<close>, with the groups \<open>1\<close>, \<open>start\<close>, \<open>end\<close> and \<open>rest\<close>.  Each
  \<open>\s*\<close> stands before a character that is no white space, so it takes all the white
  space there is; \<open>.*\<close> runs to the first line feed, and \<open>$\<close> holds there when the string
  ends or when that line feed is its last character.
\<close>

definition TIME_RE_match :: "str \<Rightarrow> (str \<times> str \<times> str \<times> str) option" where
  "TIME_RE_match line =
     (case timestamp_at (dropWhile is_space line) of
        None \<Rightarrow> None
      | Some (start, r1) \<Rightarrow>
          if take 3 (dropWhile is_space r1) \<noteq> lit ''-->'' then None
          else
            (case timestamp_at (dropWhile is_space (drop 3 (dropWhile is_space r1))) of
               None \<Rightarrow> None
             | Some (end_ts, r2) \<Rightarrow>
                 if dropWhile (\<lambda>c. c \<noteq> LF) r2 = [] \<or> dropWhile (\<lambda>c. c \<noteq> LF) r2 = [LF]
                 then Some (takeWhile is_space line, start, end_ts,
                            takeWhile (\<lambda>c. c \<noteq> LF) r2)
                 else None))"

subsection \<open>\<open>parse_hhmmss_mmm\<close>\<close>

text \<open>The body of the \<open>try\<close>; \<open>None\<close> stands for any exception raised in it.\<close>

definition parse_fields :: "str \<Rightarrow> timedelta option" where
  "parse_fields s =
     (case py_split (of_char (CHR ''.'')) s of
        [hms, ms] \<Rightarrow>
          (let parts = py_split (of_char (CHR '':'')) hms in
           case (if length parts = 3 then
                   (case map py_int parts of
                      [Some hh, Some mm, Some ss] \<Rightarrow> Some (hh, mm, ss)
                    | _ \<Rightarrow> None)
                 else if length parts = 2 then
                   (case map py_int parts of
                      [Some mm, Some ss] \<Rightarrow> Some (0, mm, ss)
                    | _ \<Rightarrow> None)
                 else None) of
             None \<Rightarrow> None
           | Some (hh, mm, ss) \<Rightarrow>
               (case py_int ms of
                  None \<Rightarrow> None
                | Some millis \<Rightarrow>
                    (case timedelta_of hh mm ss millis of
                       Inl e \<Rightarrow> None
                     | Inr td \<Rightarrow> Some td)))
      | _ \<Rightarrow> None)"

definition invalid_time_format :: "str \<Rightarrow> str" where
  "invalid_time_format s =
     lit ''Invalid time format '' @ [APOSTROPHE] @ s @ [APOSTROPHE]
       @ lit ''. Expected HH:MM:SS.mmm or MM:SS.mmm''"

definition parse_hhmmss_mmm :: "str \<Rightarrow> error + timedelta" where
  "parse_hhmmss_mmm s =
     (case parse_fields s of
        Some td \<Rightarrow> Inr td
      | None \<Rightarrow> Inl (ValueError (invalid_time_format s)))"

subsection \<open>\<open>format_hhmmss_mmm\<close>\<close>

text \<open>\<open>int(round(td.total_seconds() * 1000))\<close>.\<close>

definition rounded_ms :: "timedelta \<Rightarrow> int" where
  "rounded_ms td = py_round (fl (total_seconds td * 1000))"

definition format_hhmmss_mmm :: "timedelta \<Rightarrow> str" where
  "format_hhmmss_mmm td =
     (let total_ms = rounded_ms td;
          total_ms = (if total_ms < 0 then 0 else total_ms);
          ms = total_ms mod 1000;
          total_secs = total_ms div 1000;
          ss = total_secs mod 60;
          total_minutes = total_secs div 60;
          mm = total_minutes mod 60;
          hh = total_minutes div 60
      in fmt_d 2 hh @ lit '':'' @ fmt_d 2 mm @ lit '':'' @ fmt_d 2 ss @ lit ''.'' @ fmt_d 3 ms)"

subsection \<open>\<open>shift_line\<close>\<close>

text \<open>The two statements that clamp a negative time to \<open>timedelta(0)\<close>.\<close>

definition clamp_negative :: "timedelta \<Rightarrow> timedelta" where
  "clamp_negative td = (if total_seconds td < 0 then 0 else td)"

definition shift_line :: "str \<Rightarrow> timedelta \<Rightarrow> error + str" where
  "shift_line line shift =
     (case TIME_RE_match line of
        None \<Rightarrow> Inr line
      | Some (g1, start, end_ts, rest) \<Rightarrow>
          (case parse_hhmmss_mmm start of
             Inl e \<Rightarrow> Inl e
           | Inr start_td \<Rightarrow>
               (case parse_hhmmss_mmm end_ts of
                  Inl e \<Rightarrow> Inl e
                | Inr end_td \<Rightarrow>
                    (case td_add start_td shift of
                       Inl e \<Rightarrow> Inl e
                     | Inr new_start \<Rightarrow>
                         (case td_add end_td shift of
                            Inl e \<Rightarrow> Inl e
                          | Inr new_end \<Rightarrow>
                              Inr (g1 @ format_hhmmss_mmm (clamp_negative new_start)
                                     @ lit '' --> ''
                                     @ format_hhmmss_mmm (clamp_negative new_end)
                                     @ rest @ [LF]))))))"

section \<open>The notions of the specification\<close>

text \<open>The number that a string of decimal digits denotes.\<close>

definition decimal_value :: "str \<Rightarrow> nat" where
  "decimal_value ds = foldl (\<lambda>a c. 10 * a + digit_val c) 0 ds"

text \<open>A field of exactly \<open>n\<close> decimal digits, in the sense of \<open>\d\<close>.\<close>

definition digits :: "nat \<Rightarrow> str \<Rightarrow> bool" where
  "digits n s \<longleftrightarrow> length s = n \<and> list_all is_digit s"

text \<open>A timestamp in the form \<open>HH:MM:SS.mmm\<close> or in the form \<open>MM:SS.mmm\<close>.\<close>

definition timestamp_form :: "str \<Rightarrow> bool" where
  "timestamp_form s \<longleftrightarrow>
     (\<exists>hh mm ss mmm. digits 2 hh \<and> digits 2 mm \<and> digits 2 ss \<and> digits 3 mmm \<and>
        (s = hh @ lit '':'' @ mm @ lit '':'' @ ss @ lit ''.'' @ mmm \<or>
         s = mm @ lit '':'' @ ss @ lit ''.'' @ mmm))"

text \<open>
  The Timing Line pattern of the specification: optional leading white space, a timestamp,
  optional white space, the arrow, optional white space, a second timestamp, and any
  remaining text to the end of the line, where a line ends with its line feed or with
  the end of the text.  White space and digits are those of Python's \<open>str\<close> patterns,
  \<open>\s\<close> and \<open>\d\<close>.
\<close>

definition timing_line_form :: "str \<Rightarrow> bool" where
  "timing_line_form line \<longleftrightarrow>
     (\<exists>ws s1 w1 w2 s2 rest eol.
        line = ws @ s1 @ w1 @ lit ''-->'' @ w2 @ s2 @ rest @ eol \<and>
        list_all is_space ws \<and> timestamp_form s1 \<and> list_all is_space w1 \<and>
        list_all is_space w2 \<and> timestamp_form s2 \<and> LF \<notin> set rest \<and>
        (eol = [] \<or> eol = [LF]))"

text \<open>The duration of so many hours, minutes, seconds and milliseconds, in microseconds.\<close>

definition duration_us :: "nat \<Rightarrow> nat \<Rightarrow> nat \<Rightarrow> nat \<Rightarrow> int" where
  "duration_us h m s ms = ((int h * 60 + int m) * 60 + int s) * 1000000 + int ms * 1000"

text \<open>
  The duration that two or three integer fields (hours first, when there are three) and an
  integer of milliseconds give, in microseconds.
\<close>

definition fields_us :: "int list \<Rightarrow> int \<Rightarrow> int" where
  "fields_us vals millis = foldl (\<lambda>a v. a * 60 + v) 0 vals * 1000000 + millis * 1000"

text \<open>
  The text \<open>s\<close> is a time-of-day part, one \<open>.\<close> and a milliseconds part; the
  time-of-day part splits on \<open>:\<close> into two or three fields; \<open>int()\<close> accepts each of
  them and the milliseconds part; and the duration that they give, \<open>td\<close>, is in the range
  of \<open>timedelta\<close>.
\<close>

definition parses_to :: "str \<Rightarrow> int \<Rightarrow> bool" where
  "parses_to s td \<longleftrightarrow>
     (\<exists>hms ms vals millis.
        s = hms @ lit ''.'' @ ms \<and> of_char (CHR ''.'') \<notin> set hms \<and>
        of_char (CHR ''.'') \<notin> set ms \<and>
        (length vals = 2 \<or> length vals = 3) \<and>
        map py_int (py_split (of_char (CHR '':'')) hms) = map Some vals \<and> py_int ms = Some millis \<and>
        td = fields_us vals millis \<and> td_in_range td)"

section \<open>Rounding\<close>

lemma bit_length_pos: "0 < n \<Longrightarrow> bit_length n = Suc (bit_length (n div 2))"
  by (subst bit_length.simps) simp

lemma bit_length_bounds: "0 < n \<Longrightarrow> 2 ^ bit_length n \<le> 2 * n \<and> n < 2 ^ bit_length n"
proof (induction n rule: bit_length.induct)
  case (1 n)
  show ?case
  proof (cases "n div 2 = 0")
    case True
    with "1.prems" have "n = 1" by linarith
    then show ?thesis by (simp add: bit_length.simps)
  next
    case False
    with "1.IH" "1.prems"
    have ih: "2 ^ bit_length (n div 2) \<le> 2 * (n div 2)" "n div 2 < 2 ^ bit_length (n div 2)"
      by simp_all
    have bl: "bit_length n = Suc (bit_length (n div 2))"
      using "1.prems" by (rule bit_length_pos)
    from ih show ?thesis unfolding bl by simp linarith
  qed
qed

lemma py_round_near: "\<bar>of_int (py_round y) - y\<bar> \<le> 1 / 2"
proof -
  have "of_int \<lfloor>y\<rfloor> \<le> y" "y < of_int \<lfloor>y\<rfloor> + 1" by linarith+
  then show ?thesis by (auto simp: py_round_def Let_def)
qed

lemma py_round_eqI:
  assumes "\<bar>y - of_int m\<bar> < 1 / 2"
  shows "py_round y = m"
proof -
  from assms have near: "y < of_int m + 1 / 2" "of_int m - 1 / 2 < y"
    by linarith+
  show ?thesis
  proof (cases "of_int m \<le> y")
    case True
    with near have "\<lfloor>y\<rfloor> = m" by (intro floor_unique) linarith+
    with near show ?thesis by (simp add: py_round_def Let_def)
  next
    case False
    have f: "\<lfloor>y\<rfloor> = m - 1"
    proof (rule floor_unique)
      from near have "of_int m - 1 \<le> y" by linarith
      then show "of_int (m - 1) \<le> y" by simp
      from False show "y < of_int (m - 1) + 1" by simp
    qed
    from near have "1 / 2 < y - (of_int m - 1)" by linarith
    with f show ?thesis by (simp add: py_round_def Let_def)
  qed
qed

lemma py_round_of_int: "py_round (of_int m) = m"
  by (rule py_round_eqI) simp

lemma py_round_nonpos: "y \<le> 0 \<Longrightarrow> py_round y \<le> 0"
proof -
  assume y: "y \<le> 0"
  have fl: "of_int \<lfloor>y\<rfloor> \<le> y" "y < of_int \<lfloor>y\<rfloor> + 1" by linarith+
  from y have f0: "\<lfloor>y\<rfloor> \<le> 0" by (simp add: floor_le_zero)
  show ?thesis
  proof (cases "\<lfloor>y\<rfloor> = 0")
    case True
    with fl y have "y = 0" by simp
    then show ?thesis by (simp add: py_round_def)
  next
    case False
    with f0 have "\<lfloor>y\<rfloor> + 1 \<le> 0" by linarith
    with f0 show ?thesis by (simp add: py_round_def Let_def)
  qed
qed

lemma py_round_nonneg: "0 \<le> y \<Longrightarrow> 0 \<le> py_round y"
proof -
  assume "0 \<le> y"
  then have "0 \<le> \<lfloor>y\<rfloor>" by simp
  then show ?thesis by (simp add: py_round_def Let_def)
qed

lemma ilog2_bounds:
  assumes "x \<noteq> 0"
  shows "2 powi ilog2 x \<le> \<bar>x\<bar>" and "\<bar>x\<bar> < 2 powi (ilog2 x + 1)"
proof -
  obtain p q where pq: "quotient_of \<bar>x\<bar> = (p, q)" by force
  then have q: "0 < q" and x: "\<bar>x\<bar> = of_int p / of_int q"
    by (auto dest: quotient_of_denom_pos quotient_of_div)
  from assms have "0 < \<bar>x\<bar>" by simp
  then have "0 < (of_int p :: rat) / of_int q" by (simp only: x)
  with q have p: "0 < p" by (simp add: zero_less_divide_iff)
  define bp bq where "bp = bit_length (nat p)" and "bq = bit_length (nat q)"
  define P Q :: rat where "P = of_int p" and "Q = of_int q"
  have PQ: "0 < P" "0 < Q" "\<bar>x\<bar> = P / Q" using p q x by (simp_all add: P_def Q_def)
  have nb: "2 ^ bp \<le> 2 * nat p" "nat p < 2 ^ bp" "2 ^ bq \<le> 2 * nat q" "nat q < 2 ^ bq"
  proof -
    from p q have "0 < nat p" "0 < nat q" by simp_all
    then show "2 ^ bp \<le> 2 * nat p" "nat p < 2 ^ bp" "2 ^ bq \<le> 2 * nat q" "nat q < 2 ^ bq"
      unfolding bp_def bq_def by (blast dest: bit_length_bounds)+
  qed
  then have "int (2 ^ bp) \<le> int (2 * nat p)" "int (nat p) < int (2 ^ bp)"
    "int (2 ^ bq) \<le> int (2 * nat q)" "int (nat q) < int (2 ^ bq)"
    by (simp_all only: of_nat_le_iff of_nat_less_iff)
  then have ib: "2 ^ bp \<le> 2 * p" "p < 2 ^ bp" "2 ^ bq \<le> 2 * q" "q < 2 ^ bq"
    using p q by simp_all
  then have "(of_int (2 ^ bp) :: rat) \<le> of_int (2 * p)" "(of_int p :: rat) < of_int (2 ^ bp)"
    "(of_int (2 ^ bq) :: rat) \<le> of_int (2 * q)" "(of_int q :: rat) < of_int (2 ^ bq)"
    by (simp_all only: of_int_le_iff of_int_less_iff)
  then have b: "2 ^ bp \<le> 2 * P" "P < 2 ^ bp" "2 ^ bq \<le> 2 * Q" "Q < 2 ^ bq"
    by (simp_all add: P_def Q_def)
  define e0 where "e0 = int bp - int bq"
  have e0: "(2::rat) powi e0 = 2 ^ bp / 2 ^ bq"
    unfolding e0_def by (simp add: power_int_diff)
  have e0m: "(2::rat) powi (e0 - 1) = 2 ^ bp / (2 * 2 ^ bq)"
    using e0 by (simp add: power_int_diff)
  have e0p: "(2::rat) powi (e0 + 1) = 2 * 2 ^ bp / 2 ^ bq"
    using e0 by (simp add: power_int_add)
  have il: "ilog2 x = (if 2 powi e0 \<le> \<bar>x\<bar> then e0 else e0 - 1)"
    by (simp add: ilog2_def pq e0_def bp_def bq_def Let_def)
  have up: "\<bar>x\<bar> < 2 powi (e0 + 1)"
  proof -
    have "P * 2 ^ bq < 2 ^ bp * 2 ^ bq" using b by (intro mult_strict_right_mono) simp_all
    also have "\<dots> \<le> 2 ^ bp * (2 * Q)" using b by (intro mult_left_mono) simp_all
    finally have "P / Q < 2 * 2 ^ bp / 2 ^ bq" using PQ by (simp add: field_simps)
    then show ?thesis by (simp only: e0p PQ(3))
  qed
  have low: "2 powi (e0 - 1) \<le> \<bar>x\<bar>"
  proof -
    have "2 ^ bp * Q \<le> 2 * P * Q" using b PQ by (intro mult_right_mono) simp_all
    also have "\<dots> \<le> 2 * P * 2 ^ bq" using b PQ by (intro mult_left_mono) simp_all
    finally have "2 ^ bp / (2 * 2 ^ bq) \<le> P / Q" using PQ by (simp add: field_simps)
    then show ?thesis by (simp only: e0m PQ(3))
  qed
  show "2 powi ilog2 x \<le> \<bar>x\<bar>" using low by (simp add: il)
  show "\<bar>x\<bar> < 2 powi (ilog2 x + 1)" using up by (auto simp: il)
qed


lemma fl_0: "fl 0 = 0"
  by (simp add: fl_def)


lemma fl_error: "\<bar>fl x - x\<bar> \<le> \<bar>x\<bar> / 2 ^ 53"
proof (cases "x = 0")
  case True
  then show ?thesis by (simp add: fl_0)
next
  case False
  define u :: rat where "u = 2 powi (ilog2 x - 52)"
  have u: "0 < u" by (simp add: u_def)
  have flx: "fl x = of_int (py_round (x / u)) * u" using False by (simp add: fl_def u_def Let_def)
  have "fl x - x = (of_int (py_round (x / u)) - x / u) * u"
    using u by (simp add: flx field_simps)
  then have "\<bar>fl x - x\<bar> = \<bar>of_int (py_round (x / u)) - x / u\<bar> * u"
    using u by (simp add: abs_mult)
  also have "\<dots> \<le> 1 / 2 * u"
    using u py_round_near [of "x / u"] by (intro mult_right_mono) simp_all
  also have "1 / 2 * u = 2 powi ilog2 x / 2 ^ 53"
    by (simp add: u_def power_int_diff)
  also have "\<dots> \<le> \<bar>x\<bar> / 2 ^ 53"
    using ilog2_bounds(1) [OF False] by (simp add: divide_right_mono)
  finally show ?thesis .
qed

lemma fl_pos: "0 < x \<Longrightarrow> 0 < fl x"
proof -
  assume x: "0 < x"
  have "x / 2 ^ 53 < x" using x by (simp add: field_simps)
  with fl_error [of x] x show ?thesis by linarith
qed

lemma fl_neg: "x < 0 \<Longrightarrow> fl x < 0"
proof -
  assume x: "x < 0"
  have "(- x) / 2 ^ 53 < - x" using x by (simp add: field_simps)
  moreover from x have "\<bar>x\<bar> = - x" by simp
  ultimately show ?thesis using fl_error [of x] x by linarith
qed

lemma fl_less_0_iff: "fl x < 0 \<longleftrightarrow> x < 0"
  using fl_pos [of x] fl_neg [of x] fl_0 by (cases "x = 0"; cases "0 < x") auto

lemma total_seconds_less_0_iff: "total_seconds td < 0 \<longleftrightarrow> td < 0"
  by (simp add: total_seconds_def fl_less_0_iff)

lemma clamp_negative_eq: "clamp_negative td = max 0 td"
  by (simp add: clamp_negative_def total_seconds_less_0_iff max_def)

lemma rounded_ms_nonpos: "td \<le> 0 \<Longrightarrow> rounded_ms td \<le> 0"
proof -
  assume "td \<le> 0"
  then have "total_seconds td \<le> 0"
    using fl_neg [of "of_int td / 1000000"] by (cases "td = 0") (auto simp: total_seconds_def fl_0 less_imp_le)
  then have "fl (total_seconds td * 1000) \<le> 0"
    using fl_neg [of "total_seconds td * 1000"] by (cases "total_seconds td = 0") (auto simp: fl_0 less_imp_le)
  then show ?thesis unfolding rounded_ms_def by (rule py_round_nonpos)
qed

lemma rounded_ms_nonneg: "0 \<le> td \<Longrightarrow> 0 \<le> rounded_ms td"
proof -
  assume "0 \<le> td"
  then have "0 \<le> total_seconds td"
    using fl_pos [of "of_int td / 1000000"] by (cases "td = 0") (auto simp: total_seconds_def fl_0 less_imp_le)
  then have "0 \<le> fl (total_seconds td * 1000)"
    using fl_pos [of "total_seconds td * 1000"] by (cases "total_seconds td = 0") (auto simp: fl_0 less_imp_le)
  then show ?thesis unfolding rounded_ms_def by (rule py_round_nonneg)
qed

text \<open>
  On a whole number of milliseconds of magnitude up to \<open>2 ^ 50\<close> (more than 35000 years)
  the two roundings of \<open>td.total_seconds() * 1000\<close> cancel: the result is within
  \<open>3 / 8\<close> of the number of milliseconds.
\<close>

lemma rounded_ms_exact:
  assumes "\<bar>m\<bar> \<le> 2 ^ 50"
  shows "rounded_ms (1000 * m) = m"
proof -
  define M :: rat where "M = \<bar>of_int m\<bar>"
  define A :: rat where "A = M / 2 ^ 53"
  define x :: rat where "x = of_int m / 1000"
  define y :: rat where "y = fl x * 1000"
  have "(of_int \<bar>m\<bar> :: rat) \<le> of_int (2 ^ 50)" using assms by (simp only: of_int_le_iff)
  then have M: "0 \<le> M" "M \<le> 2 ^ 50" by (simp_all add: M_def)
  then have A: "0 \<le> A" "A \<le> 1 / 8" by (simp_all add: A_def field_simps)
  have ts: "total_seconds (1000 * m) = fl x" by (simp add: total_seconds_def x_def)
  have "\<bar>x\<bar> / 2 ^ 53 = A / 1000" by (simp add: x_def A_def M_def)
  with fl_error [of x] have "\<bar>fl x - x\<bar> \<le> A / 1000" by simp
  moreover have "y - of_int m = (fl x - x) * 1000" by (simp add: x_def y_def algebra_simps)
  ultimately have ym: "\<bar>y - of_int m\<bar> \<le> A" by (simp only: abs_mult) simp
  then have "\<bar>y\<bar> \<le> M + A" unfolding M_def by linarith
  then have "\<bar>y\<bar> / 2 ^ 53 \<le> (M + A) / 2 ^ 53" by (simp add: divide_right_mono)
  also have "(M + A) / 2 ^ 53 = A + A / 2 ^ 53" by (simp add: A_def add_divide_distrib)
  also have "\<dots> \<le> A + A" using A by (simp add: field_simps)
  finally have "\<bar>fl y - y\<bar> \<le> A + A" using fl_error [of y] by linarith
  with ym A have "\<bar>fl y - of_int m\<bar> < 1 / 2" by linarith
  then have "py_round (fl y) = m" by (rule py_round_eqI)
  then show ?thesis by (simp add: rounded_ms_def ts y_def)
qed

section \<open>Digits, white space and literals\<close>

lemma lit_Nil [simp]: "lit [] = []"
  by (simp add: lit_def)

lemma lit_Cons [simp]: "lit (c # cs) = of_char c # lit cs"
  by (simp add: lit_def)

lemma digit_zero_Some: "digit_zero c = Some z \<Longrightarrow> z \<in> set digit_zeros \<and> z \<le> c \<and> c < z + 10"
  by (auto simp: digit_zero_def find_Some_iff)

lemma is_digit_iff: "is_digit c \<longleftrightarrow> (\<exists>z\<in>set digit_zeros. z \<le> c \<and> c < z + 10)"
  by (auto simp: is_digit_def digit_zero_def find_None_iff)

lemma digit_zeros_apart:
  assumes "z \<in> set digit_zeros"
  shows "z = 48 \<or> (1632 \<le> z \<and> z + 10 \<le> 5760) \<or> (5760 < z \<and> z + 10 \<le> 8192) \<or> 12288 < z"
  using assms unfolding digit_zeros_def by (simp, elim disjE) simp_all

text \<open>
  No digit is one of \<open>.\<close> (46), \<open>:\<close> (58), \<open>_\<close> (95), \<open>-\<close> (45), \<open>+\<close> (43), the line feed
  or a white space.
\<close>

lemma is_digit_chars:
  assumes "is_digit c"
  shows "c \<noteq> 46" "c \<noteq> 58" "c \<noteq> 95"
    "c \<noteq> 45" "c \<noteq> 43"
    "c \<noteq> LF" "\<not> is_int_space c" "\<not> is_space c"
proof -
  from assms obtain z where z: "z \<in> set digit_zeros" "z \<le> c" "c < z + 10"
    unfolding is_digit_iff by blast
  from digit_zeros_apart [OF z(1)] z(2,3)
  have c: "(48 \<le> c \<and> c < 58) \<or> (1632 \<le> c \<and> c < 5760) \<or> (5760 < c \<and> c < 8192) \<or> 12288 < c"
    by linarith
  then show "c \<noteq> 46" "c \<noteq> 58" "c \<noteq> 95"
    "c \<noteq> 45" "c \<noteq> 43" "c \<noteq> LF"
    by (auto simp: LF_def)
  from c show "\<not> is_int_space c" "\<not> is_space c"
    by (auto simp: is_int_space_def is_space_def)
qed

lemma is_digit_below: "c < 1632 \<Longrightarrow> is_digit c \<longleftrightarrow> 48 \<le> c \<and> c < 58"
proof
  assume c: "c < 1632" and "is_digit c"
  then obtain z where z: "z \<in> set digit_zeros" "z \<le> c" "c < z + 10"
    unfolding is_digit_iff by blast
  from digit_zeros_apart [OF z(1)] z(2,3) c show "48 \<le> c \<and> c < 58" by linarith
next
  assume "48 \<le> c \<and> c < 58"
  moreover have "48 \<in> set digit_zeros" by (simp add: digit_zeros_def)
  ultimately show "is_digit c" unfolding is_digit_iff by force
qed

lemma digit_val_below: "48 \<le> c \<Longrightarrow> c < 58 \<Longrightarrow> digit_val c = c - 48"
  by (simp add: digit_val_def digit_zero_def digit_zeros_def)

lemma digit_val_le: "digit_val c \<le> 9"
  by (auto simp: digit_val_def split: option.splits dest: digit_zero_Some)

lemma digit_char:
  assumes "d < 10"
  shows "is_digit (48 + d)" and "digit_val (48 + d) = d"
  using assms by (simp_all add: is_digit_below digit_val_below)

lemma digits_notin:
  assumes "list_all is_digit s"
  shows "46 \<notin> set s" "58 \<notin> set s" "LF \<notin> set s"
  using assms by (auto simp: list_all_iff dest: is_digit_chars)

section \<open>Splitting, reading and writing decimal fields\<close>

lemma py_split_notin: "sep \<notin> set s \<Longrightarrow> py_split sep s = [s]"
  by (induction s) auto

lemma py_split_append:
  "sep \<notin> set a \<Longrightarrow> py_split sep (a @ sep # b) = a # py_split sep b"
  by (induction a) auto

lemma py_split_not_Nil: "py_split sep s \<noteq> []"
  by (induction s) (auto split: list.splits)

lemma length_py_split: "length (py_split sep s) = Suc (count_list s sep)"
  using py_split_not_Nil [of sep] by (induction s) (auto split: list.splits)

lemma py_split_takeWhile:
  "py_split sep s = takeWhile (\<lambda>c. c \<noteq> sep) s #
     (case dropWhile (\<lambda>c. c \<noteq> sep) s of [] \<Rightarrow> [] | c # r \<Rightarrow> py_split sep r)"
  using py_split_not_Nil [of sep] by (induction s) (auto split: list.splits)

lemma int_digits_foldl:
  "list_all is_digit ds \<Longrightarrow> ds \<noteq> [] \<Longrightarrow>
     int_digits acc ds = Some (foldl (\<lambda>a c. 10 * a + digit_val c) acc ds)"
  by (induction acc ds rule: int_digits.induct) (auto dest: is_digit_chars)

lemma py_strip_id:
  assumes "s \<noteq> []" "\<not> is_int_space (hd s)" "\<not> is_int_space (last s)"
  shows "py_strip s = s"
proof -
  from assms have "dropWhile is_int_space s = s" by (cases s) auto
  moreover from assms have "dropWhile is_int_space (rev s) = rev s"
    by (cases "rev s") (auto simp: last_rev [symmetric] simp del: last_rev)
  ultimately show ?thesis by (simp add: py_strip_def)
qed

lemma py_int_digits:
  assumes "list_all is_digit ds" "ds \<noteq> []" "length ds \<le> int_max_str_digits"
  shows "py_int ds = Some (int (decimal_value ds))"
proof -
  from assms have "is_digit (hd ds)" "is_digit (last ds)"
    by (auto simp: list_all_iff)
  then have st: "py_strip ds = ds"
    and hd: "hd ds \<noteq> 45" "hd ds \<noteq> 43"
    using assms(2) by (auto intro: py_strip_id dest: is_digit_chars)
  from assms(1) have "filter is_digit ds = ds" by (simp add: list_all_iff)
  with assms(3) have il: "int_literal ds = int_digits 0 ds" by (simp add: int_literal_def)
  from assms obtain c cs where ds: "ds = c # cs" by (cases ds) auto
  show ?thesis
    unfolding py_int_def st using ds hd il int_digits_foldl [OF assms(1,2), of 0]
    by (simp add: decimal_value_def)
qed

lemma decimal_value_snoc: "decimal_value (ds @ [c]) = 10 * decimal_value ds + digit_val c"
  by (simp add: decimal_value_def)

lemma decimal_value_zeros: "decimal_value (replicate k 48 @ ds) = decimal_value ds"
proof -
  have "foldl (\<lambda>a c. 10 * a + digit_val c) 0 (replicate k 48) = 0"
    by (induction k) (simp_all add: digit_val_below)
  then show ?thesis by (simp add: decimal_value_def)
qed

lemma str_nat_digits: "list_all is_digit (str_nat n) \<and> str_nat n \<noteq> [] \<and> decimal_value (str_nat n) = n"
proof (induction n rule: str_nat.induct)
  case (1 n)
  show ?case
  proof (cases "n < 10")
    case True
    then show ?thesis
      by (subst (1 2 3) str_nat.simps) (simp add: digit_char decimal_value_def)
  next
    case False
    with "1.IH" show ?thesis
      by (subst (1 2 3) str_nat.simps) (simp add: digit_char decimal_value_snoc)
  qed
qed

lemma zfill_digits:
  assumes "list_all is_digit s" "s \<noteq> []"
  shows "list_all is_digit (zfill w s)" "zfill w s \<noteq> []"
    "decimal_value (zfill w s) = decimal_value s"
proof -
  have "is_digit 48" by (simp add: is_digit_below)
  with assms show "list_all is_digit (zfill w s)" by (auto simp: zfill_def list_all_iff)
  from assms show "zfill w s \<noteq> []" by (simp add: zfill_def)
  show "decimal_value (zfill w s) = decimal_value s" by (simp add: zfill_def decimal_value_zeros)
qed


lemma fmt_d_digits:
  assumes "0 \<le> n"
  shows "list_all is_digit (fmt_d w n)" "fmt_d w n \<noteq> []"
    "decimal_value (fmt_d w n) = nat n"
  using assms str_nat_digits [of "nat n"] by (simp_all add: fmt_d_def zfill_digits)


lemma py_int_fmt_d:
  "0 \<le> n \<Longrightarrow> length (fmt_d w n) \<le> int_max_str_digits \<Longrightarrow> py_int (fmt_d w n) = Some n"
  by (simp add: py_int_digits fmt_d_digits)

section \<open>Parsing fields of decimal digits\<close>

lemma parse_fields_hms:
  assumes "list_all is_digit H" "H \<noteq> []" "list_all is_digit M" "M \<noteq> []"
    and "list_all is_digit S" "S \<noteq> []" "list_all is_digit F" "F \<noteq> []"
    and "length H \<le> int_max_str_digits" "length M \<le> int_max_str_digits"
    and "length S \<le> int_max_str_digits" "length F \<le> int_max_str_digits"
  shows "parse_fields (H @ lit '':'' @ M @ lit '':'' @ S @ lit ''.'' @ F) =
    (if td_in_range (duration_us (decimal_value H) (decimal_value M) (decimal_value S) (decimal_value F))
     then Some (duration_us (decimal_value H) (decimal_value M) (decimal_value S) (decimal_value F))
     else None)"
proof -
  have "46 \<notin> set (H @ 58 # M @ 58 # S)"
    using assms by (simp add: digits_notin)
  then have "py_split 46 ((H @ 58 # M @ 58 # S) @ 46 # F) =
      (H @ 58 # M @ 58 # S) # py_split 46 F"
    by (rule py_split_append)
  then have sp1: "py_split 46 (H @ lit '':'' @ M @ lit '':'' @ S @ lit ''.'' @ F) =
      [H @ 58 # M @ 58 # S, F]"
    using assms by (simp add: py_split_notin digits_notin)
  have "py_split 58 (H @ 58 # M @ 58 # S) = H # py_split 58 (M @ 58 # S)"
    using assms by (intro py_split_append) (simp add: digits_notin)
  also have "py_split 58 (M @ 58 # S) = M # py_split 58 S"
    using assms by (intro py_split_append) (simp add: digits_notin)
  also have "py_split 58 S = [S]"
    using assms by (intro py_split_notin) (simp add: digits_notin)
  finally have sp2: "py_split 58 (H @ 58 # M @ 58 # S) = [H, M, S]" .
  have c: "of_char (CHR ''.'') = (46 :: nat)" "of_char (CHR '':'') = (58 :: nat)" by simp_all
  show ?thesis
    unfolding parse_fields_def c sp1 using assms
    by (simp add: sp2 py_int_digits timedelta_of_def duration_us_def)
qed

lemma parse_fields_ms:
  assumes "list_all is_digit M" "M \<noteq> []" "list_all is_digit S" "S \<noteq> []"
    and "list_all is_digit F" "F \<noteq> []"
    and "length M \<le> int_max_str_digits"
    and "length S \<le> int_max_str_digits" "length F \<le> int_max_str_digits"
  shows "parse_fields (M @ lit '':'' @ S @ lit ''.'' @ F) =
    (if td_in_range (duration_us 0 (decimal_value M) (decimal_value S) (decimal_value F))
     then Some (duration_us 0 (decimal_value M) (decimal_value S) (decimal_value F))
     else None)"
proof -
  have "46 \<notin> set (M @ 58 # S)"
    using assms by (simp add: digits_notin)
  then have "py_split 46 ((M @ 58 # S) @ 46 # F) = (M @ 58 # S) # py_split 46 F"
    by (rule py_split_append)
  then have sp1: "py_split 46 (M @ lit '':'' @ S @ lit ''.'' @ F) = [M @ 58 # S, F]"
    using assms by (simp add: py_split_notin digits_notin)
  have "py_split 58 (M @ 58 # S) = M # py_split 58 S"
    using assms by (intro py_split_append) (simp add: digits_notin)
  also have "py_split 58 S = [S]"
    using assms by (intro py_split_notin) (simp add: digits_notin)
  finally have sp2: "py_split 58 (M @ 58 # S) = [M, S]" .
  have c: "of_char (CHR ''.'') = (46 :: nat)" "of_char (CHR '':'') = (58 :: nat)" by simp_all
  show ?thesis
    unfolding parse_fields_def c sp1 using assms
    by (simp add: sp2 py_int_digits timedelta_of_def duration_us_def)
qed

lemma parse_some: "parse_fields s = Some td \<Longrightarrow> parse_hhmmss_mmm s = Inr td"
  by (simp add: parse_hhmmss_mmm_def)

lemma parse_none:
  "parse_fields s = None \<Longrightarrow> parse_hhmmss_mmm s = Inl (ValueError (invalid_time_format s))"
  by (simp add: parse_hhmmss_mmm_def)

section \<open>What \<open>format_hhmmss_mmm\<close> writes\<close>

lemma format_fields:
  "format_hhmmss_mmm td =
     fmt_d 2 (max 0 (rounded_ms td) div 3600000) @ lit '':'' @
     fmt_d 2 (max 0 (rounded_ms td) div 60000 mod 60) @ lit '':'' @
     fmt_d 2 (max 0 (rounded_ms td) div 1000 mod 60) @ lit ''.'' @
     fmt_d 3 (max 0 (rounded_ms td) mod 1000)"
proof -
  have "(if rounded_ms td < 0 then 0 else rounded_ms td) = max 0 (rounded_ms td)"
    by (simp add: max_def)
  moreover have "t div 1000 div 60 div 60 = t div 3600000" "t div 1000 div 60 = t div 60000"
    for t :: int
    by (simp_all add: div_mult2_eq [symmetric])
  ultimately show ?thesis by (simp add: format_hhmmss_mmm_def Let_def)
qed



section \<open>What \<open>TIME_RE\<close> matches\<close>

lemma conforms_Cons:
  "conforms (t # ts) s \<longleftrightarrow>
     (\<exists>c cs. s = c # cs \<and> (if t = CHR ''d'' then is_digit c else c = of_char t) \<and> conforms ts cs)"
  by (cases s) auto

lemma digits_2: "digits 2 s \<longleftrightarrow> (\<exists>a b. s = [a, b] \<and> is_digit a \<and> is_digit b)"
  by (auto simp: digits_def length_Suc_conv numeral_2_eq_2)

lemma digits_3: "digits 3 s \<longleftrightarrow> (\<exists>a b c. s = [a, b, c] \<and> is_digit a \<and> is_digit b \<and> is_digit c)"
  by (auto simp: digits_def length_Suc_conv numeral_3_eq_3)

lemma conforms_long:
  "conforms ''dd:dd:dd.ddd'' s \<longleftrightarrow>
     (\<exists>hh mm ss mmm. digits 2 hh \<and> digits 2 mm \<and> digits 2 ss \<and> digits 3 mmm \<and>
        s = hh @ lit '':'' @ mm @ lit '':'' @ ss @ lit ''.'' @ mmm)"
proof
  assume "conforms ''dd:dd:dd.ddd'' s"
  then obtain a b c d e f g h i
    where s: "s = [a, b, 58, c, d, 58, e, f, 46, g, h, i]"
      and "is_digit a" "is_digit b" "is_digit c" "is_digit d" "is_digit e" "is_digit f"
        "is_digit g" "is_digit h" "is_digit i"
    by (auto simp: conforms_Cons)
  then have "digits 2 [a, b]" "digits 2 [c, d]" "digits 2 [e, f]" "digits 3 [g, h, i]"
    by (simp_all add: digits_def)
  moreover have "s = [a, b] @ lit '':'' @ [c, d] @ lit '':'' @ [e, f] @ lit ''.'' @ [g, h, i]"
    by (simp add: s)
  ultimately show "\<exists>hh mm ss mmm. digits 2 hh \<and> digits 2 mm \<and> digits 2 ss \<and> digits 3 mmm \<and>
        s = hh @ lit '':'' @ mm @ lit '':'' @ ss @ lit ''.'' @ mmm"
    by blast
next
  assume "\<exists>hh mm ss mmm. digits 2 hh \<and> digits 2 mm \<and> digits 2 ss \<and> digits 3 mmm \<and>
        s = hh @ lit '':'' @ mm @ lit '':'' @ ss @ lit ''.'' @ mmm"
  then obtain hh mm ss mmm where "digits 2 hh" "digits 2 mm" "digits 2 ss" "digits 3 mmm"
    and s: "s = hh @ lit '':'' @ mm @ lit '':'' @ ss @ lit ''.'' @ mmm"
    by blast
  then obtain a b c d e f g h i
    where "hh = [a, b]" "mm = [c, d]" "ss = [e, f]" "mmm = [g, h, i]"
      and "is_digit a" "is_digit b" "is_digit c" "is_digit d" "is_digit e" "is_digit f"
        "is_digit g" "is_digit h" "is_digit i"
    unfolding digits_2 digits_3 by blast
  then show "conforms ''dd:dd:dd.ddd'' s" by (simp add: s)
qed

lemma conforms_short:
  "conforms ''dd:dd.ddd'' s \<longleftrightarrow>
     (\<exists>mm ss mmm. digits 2 mm \<and> digits 2 ss \<and> digits 3 mmm \<and>
        s = mm @ lit '':'' @ ss @ lit ''.'' @ mmm)"
proof
  assume "conforms ''dd:dd.ddd'' s"
  then obtain c d e f g h i
    where s: "s = [c, d, 58, e, f, 46, g, h, i]"
      and "is_digit c" "is_digit d" "is_digit e" "is_digit f"
        "is_digit g" "is_digit h" "is_digit i"
    by (auto simp: conforms_Cons)
  then have "digits 2 [c, d]" "digits 2 [e, f]" "digits 3 [g, h, i]"
    by (simp_all add: digits_def)
  moreover have "s = [c, d] @ lit '':'' @ [e, f] @ lit ''.'' @ [g, h, i]"
    by (simp add: s)
  ultimately show "\<exists>mm ss mmm. digits 2 mm \<and> digits 2 ss \<and> digits 3 mmm \<and>
        s = mm @ lit '':'' @ ss @ lit ''.'' @ mmm"
    by blast
next
  assume "\<exists>mm ss mmm. digits 2 mm \<and> digits 2 ss \<and> digits 3 mmm \<and>
        s = mm @ lit '':'' @ ss @ lit ''.'' @ mmm"
  then obtain mm ss mmm where "digits 2 mm" "digits 2 ss" "digits 3 mmm"
    and s: "s = mm @ lit '':'' @ ss @ lit ''.'' @ mmm"
    by blast
  then obtain c d e f g h i
    where "mm = [c, d]" "ss = [e, f]" "mmm = [g, h, i]"
      and "is_digit c" "is_digit d" "is_digit e" "is_digit f"
        "is_digit g" "is_digit h" "is_digit i"
    unfolding digits_2 digits_3 by blast
  then show "conforms ''dd:dd.ddd'' s" by (simp add: s)
qed

lemma timestamp_form_conforms:
  "timestamp_form s \<longleftrightarrow> conforms ''dd:dd:dd.ddd'' s \<or> conforms ''dd:dd.ddd'' s"
  unfolding timestamp_form_def conforms_long conforms_short by blast

lemma conforms_length: "conforms t s \<Longrightarrow> length s = length t"
  by (induction t s rule: conforms.induct) auto

lemma timestamp_at_Some:
  assumes "timestamp_at s = Some (t, r)"
  shows "timestamp_form t" and "s = t @ r"
  using assms by (auto simp: timestamp_at_def timestamp_form_conforms split: if_splits)

lemma short_not_long:
  assumes "conforms ''dd:dd.ddd'' t"
  shows "\<not> conforms ''dd:dd:dd.ddd'' (take 12 (t @ r))"
proof -
  from assms obtain a b c d e f g where "t = [a, b, 58, c, d, 46, e, f, g]"
    by (auto simp: conforms_Cons)
  then show ?thesis by simp
qed

lemma timestamp_at_form:
  assumes "timestamp_form t"
  shows "timestamp_at (t @ r) = Some (t, r)"
proof (cases "conforms ''dd:dd:dd.ddd'' t")
  case True
  then have "length t = 12" by (auto dest: conforms_length)
  with True show ?thesis by (simp add: timestamp_at_def)
next
  case False
  with assms have short: "conforms ''dd:dd.ddd'' t" by (simp add: timestamp_form_conforms)
  then have "length t = 9" by (auto dest: conforms_length)
  with short short_not_long [OF short, of r] show ?thesis by (simp add: timestamp_at_def)
qed

lemma timestamp_form_hd:
  assumes "timestamp_form t"
  shows "t \<noteq> []" and "is_digit (hd t)"
  using assms by (auto simp: timestamp_form_conforms conforms_Cons)

lemma span_spaces:
  assumes "list_all is_space ws" and "r = [] \<or> \<not> is_space (hd r)"
  shows "takeWhile is_space (ws @ r) = ws" and "dropWhile is_space (ws @ r) = r"
proof -
  from assms(2) have "takeWhile is_space r = []" "dropWhile is_space r = r"
    by (cases r; auto)+
  with assms(1) show "takeWhile is_space (ws @ r) = ws" "dropWhile is_space (ws @ r) = r"
    by (simp_all add: takeWhile_append2 dropWhile_append2 list_all_iff)
qed

lemma span_line:
  assumes "LF \<notin> set rest" and "eol = [] \<or> eol = [LF]"
  shows "takeWhile (\<lambda>c. c \<noteq> LF) (rest @ eol) = rest"
    and "dropWhile (\<lambda>c. c \<noteq> LF) (rest @ eol) = eol"
  using assms by (induction rest) auto

lemma TIME_RE_match_Some:
  assumes "TIME_RE_match line = Some (ws, s1, s2, rest)"
  shows "\<exists>w1 w2 eol.
        line = ws @ s1 @ w1 @ lit ''-->'' @ w2 @ s2 @ rest @ eol \<and>
        list_all is_space ws \<and> timestamp_form s1 \<and> list_all is_space w1 \<and>
        list_all is_space w2 \<and> timestamp_form s2 \<and> LF \<notin> set rest \<and>
        (eol = [] \<or> eol = [LF])"
proof -
  from assms obtain r1 where t1: "timestamp_at (dropWhile is_space line) = Some (s1, r1)"
    by (auto simp: TIME_RE_match_def split: option.splits if_splits)
  define r1' where "r1' = dropWhile is_space r1"
  from assms t1 have arrow: "take 3 r1' = lit ''-->''"
    by (auto simp: TIME_RE_match_def r1'_def split: option.splits if_splits)
  define r2' where "r2' = dropWhile is_space (drop 3 r1')"
  from assms t1 arrow obtain r2 where t2: "timestamp_at r2' = Some (s2, r2)"
    by (auto simp: TIME_RE_match_def r1'_def r2'_def split: option.splits if_splits)
  define eol where "eol = dropWhile (\<lambda>c. c \<noteq> LF) r2"
  from assms t1 arrow t2 have res: "ws = takeWhile is_space line"
    "rest = takeWhile (\<lambda>c. c \<noteq> LF) r2" "eol = [] \<or> eol = [LF]"
    by (auto simp: TIME_RE_match_def r1'_def r2'_def eol_def split: option.splits if_splits)
  have "line = ws @ dropWhile is_space line" by (simp add: res)
  also have "dropWhile is_space line = s1 @ r1" using t1 by (rule timestamp_at_Some)
  also have "r1 = takeWhile is_space r1 @ r1'" by (simp add: r1'_def)
  also have "r1' = lit ''-->'' @ drop 3 r1'" using arrow append_take_drop_id [of 3 r1'] by simp
  also have "drop 3 r1' = takeWhile is_space (drop 3 r1') @ r2'" by (simp add: r2'_def)
  also have "r2' = s2 @ r2" using t2 by (rule timestamp_at_Some)
  also have "r2 = rest @ eol" by (simp add: res eol_def)
  finally have "line = ws @ s1 @ takeWhile is_space r1 @ lit ''-->'' @
      takeWhile is_space (drop 3 r1') @ s2 @ rest @ eol" .
  moreover have "list_all is_space ws" "list_all is_space (takeWhile is_space r1)"
    "list_all is_space (takeWhile is_space (drop 3 r1'))"
    by (auto simp: res list_all_iff dest: set_takeWhileD)
  moreover have "timestamp_form s1" "timestamp_form s2"
    using t1 t2 by (auto dest: timestamp_at_Some)
  moreover have "LF \<notin> set rest" by (auto simp: res dest: set_takeWhileD)
  ultimately show ?thesis using res(3) by blast
qed

lemma TIME_RE_match_form:
  assumes "line = ws @ s1 @ w1 @ lit ''-->'' @ w2 @ s2 @ rest @ eol"
    and "list_all is_space ws" "timestamp_form s1" "list_all is_space w1"
    and "list_all is_space w2" "timestamp_form s2" "LF \<notin> set rest" "eol = [] \<or> eol = [LF]"
  shows "TIME_RE_match line = Some (ws, s1, s2, rest)"
proof -
  define R3 where "R3 = rest @ eol"
  define R2 where "R2 = w2 @ s2 @ R3"
  define R1 where "R1 = w1 @ lit ''-->'' @ R2"
  have line: "line = ws @ s1 @ R1" by (simp add: assms(1) R1_def R2_def R3_def)
  have d1: "\<not> is_space (hd (s1 @ r))" "\<not> is_space (hd (s2 @ r))" for r
    using assms timestamp_form_hd [of s1] timestamp_form_hd [of s2]
    by (auto dest: is_digit_chars)
  have a: "takeWhile is_space line = ws" "dropWhile is_space line = s1 @ R1"
    unfolding line using assms(2) d1 by (auto intro!: span_spaces)
  have t1: "timestamp_at (s1 @ R1) = Some (s1, R1)"
    using assms(3) by (rule timestamp_at_form)
  have "dropWhile is_space (w1 @ lit ''-->'' @ R2) = lit ''-->'' @ R2"
    using assms(4) by (intro span_spaces) (simp_all add: is_space_def)
  then have b: "dropWhile is_space R1 = 45 # 45 # 62 # R2"
    by (simp add: R1_def)
  have c: "dropWhile is_space R2 = s2 @ R3"
    unfolding R2_def using assms(5) d1 by (auto intro!: span_spaces)
  have t2: "timestamp_at (s2 @ R3) = Some (s2, R3)"
    using assms(6) by (rule timestamp_at_form)
  have e: "takeWhile (\<lambda>c. c \<noteq> LF) R3 = rest" "dropWhile (\<lambda>c. c \<noteq> LF) R3 = eol"
    unfolding R3_def using assms(7,8) by (rule span_line)+
  show ?thesis
  proof (cases "eol = []")
    case True
    then have e': "dropWhile (\<lambda>c. c \<noteq> LF) R3 = []" by (simp only: e)
    show ?thesis
      unfolding TIME_RE_match_def a t1
      by (simp add: b c t2 e(1) e' del: dropWhile_eq_Nil_conv)
  next
    case False
    with assms(8) have "eol = [LF]" by blast
    then have e': "dropWhile (\<lambda>c. c \<noteq> LF) R3 = [LF]" by (simp only: e)
    show ?thesis
      unfolding TIME_RE_match_def a t1
      by (simp add: b c t2 e(1) e' del: dropWhile_eq_Nil_conv)
  qed
qed

section \<open>Evaluation on concrete lines\<close>

lemma format_whole_ms:
  assumes "\<bar>m\<bar> \<le> 2 ^ 50"
  shows "format_hhmmss_mmm (1000 * m) =
     fmt_d 2 (max 0 m div 3600000) @ lit '':'' @ fmt_d 2 (max 0 m div 60000 mod 60) @ lit '':'' @
     fmt_d 2 (max 0 m div 1000 mod 60) @ lit ''.'' @ fmt_d 3 (max 0 m mod 1000)"
  by (simp only: format_fields rounded_ms_exact [OF assms])

lemmas eval_match = TIME_RE_match_def timestamp_at_def is_space_def is_digit_below LF_def

lemmas eval_parse = parse_hhmmss_mmm_def parse_fields_def py_int_def py_strip_def
  int_literal_def int_max_str_digits_def is_int_space_def is_digit_below digit_val_below
  timedelta_of_def td_in_range_def td_min_def td_max_def

lemma str_nat_lt10: "n < 10 \<Longrightarrow> str_nat n = [48 + n]"
  by (subst str_nat.simps) simp

lemma str_nat_ge10: "10 \<le> n \<Longrightarrow> str_nat n = str_nat (n div 10) @ [48 + n mod 10]"
  by (subst str_nat.simps) simp

lemma zfill_Cons: "zfill w s = (if length s < w then 48 # zfill (w - 1) s else s)"
  by (cases "w - length s") (auto simp: zfill_def Suc_diff_Suc replicate_append_same)

lemmas eval_fmt = fmt_d_def str_nat_lt10 str_nat_ge10 zfill_Cons

lemma format_zero: "rounded_ms d \<le> 0 \<Longrightarrow> format_hhmmss_mmm d = lit ''00:00:00.000''"
proof -
  assume "rounded_ms d \<le> 0"
  then have "max 0 (rounded_ms d) = 0" by simp
  then show ?thesis by (simp add: format_fields eval_fmt)
qed

section \<open>The captured timestamps and the reconstructed line\<close>

lemma decimal_value_less: "list_all is_digit s \<Longrightarrow> decimal_value s < 10 ^ length s"
proof (induction s rule: rev_induct)
  case Nil
  then show ?case by (simp add: decimal_value_def)
next
  case (snoc c s)
  then have "decimal_value s < 10 ^ length s" "digit_val c \<le> 9"
    by (simp_all add: digit_val_le)
  then show ?case by (simp add: decimal_value_snoc)
qed

lemma digits_fields:
  assumes "digits n s" "0 < n"
  shows "list_all is_digit s" "s \<noteq> []" "decimal_value s < 10 ^ n" "length s = n"
  using assms decimal_value_less [of s] by (auto simp: digits_def)

lemma timestamp_range:
  assumes "dh < 10 ^ 2" "dm < 10 ^ 2" "ds < 10 ^ 2" "df < 10 ^ 3"
  shows "0 \<le> duration_us dh dm ds df" "duration_us dh dm ds df \<le> 362439999000"
    "td_in_range (duration_us dh dm ds df)"
  using assms by (simp_all add: duration_us_def td_in_range_def td_min_def td_max_def)

lemma parse_timestamp_form:
  assumes "timestamp_form t"
  shows "\<exists>v. parse_hhmmss_mmm t = Inr v \<and> 0 \<le> v \<and> v \<le> 362439999000"
proof -
  from assms obtain hh mm ss mmm
    where d: "digits 2 hh" "digits 2 mm" "digits 2 ss" "digits 3 mmm"
      and t: "t = hh @ lit '':'' @ mm @ lit '':'' @ ss @ lit ''.'' @ mmm \<or>
        t = mm @ lit '':'' @ ss @ lit ''.'' @ mmm"
    unfolding timestamp_form_def by blast
  note f = digits_fields [OF d(1)] digits_fields [OF d(2)] digits_fields [OF d(3)]
    digits_fields [OF d(4)]
  from t show ?thesis
  proof
    assume t: "t = hh @ lit '':'' @ mm @ lit '':'' @ ss @ lit ''.'' @ mmm"
    have r: "decimal_value hh < 10 ^ 2" "decimal_value mm < 10 ^ 2" "decimal_value ss < 10 ^ 2"
      "decimal_value mmm < 10 ^ 3" using f by simp_all
    have "parse_fields t = Some (duration_us (decimal_value hh) (decimal_value mm)
        (decimal_value ss) (decimal_value mmm))"
      unfolding t using f
      by (subst parse_fields_hms)
        (simp_all add: timestamp_range(3) [OF r] int_max_str_digits_def)
    with timestamp_range(1,2) [OF r] show ?thesis by (auto dest: parse_some)
  next
    assume t: "t = mm @ lit '':'' @ ss @ lit ''.'' @ mmm"
    have r: "(0::nat) < 10 ^ 2" "decimal_value mm < 10 ^ 2" "decimal_value ss < 10 ^ 2"
      "decimal_value mmm < 10 ^ 3" using f by simp_all
    have "parse_fields t = Some (duration_us 0 (decimal_value mm)
        (decimal_value ss) (decimal_value mmm))"
      unfolding t using f
      by (subst parse_fields_ms)
        (simp_all add: timestamp_range(3) [OF r] int_max_str_digits_def)
    with timestamp_range(1,2) [OF r] show ?thesis by (auto dest: parse_some)
  qed
qed

lemma match_parses:
  assumes "TIME_RE_match line = Some (ws, s1, s2, rest)"
  shows "\<exists>a b. parse_hhmmss_mmm s1 = Inr a \<and> parse_hhmmss_mmm s2 = Inr b \<and>
    0 \<le> a \<and> a \<le> 362439999000 \<and> 0 \<le> b \<and> b \<le> 362439999000"
proof -
  from TIME_RE_match_Some [OF assms] have "timestamp_form s1" "timestamp_form s2" by blast+
  then show ?thesis using parse_timestamp_form [of s1] parse_timestamp_form [of s2] by blast
qed

lemma format_clamp_negative: "format_hhmmss_mmm (clamp_negative d) = format_hhmmss_mmm d"
proof (cases "d < 0")
  case True
  then have "format_hhmmss_mmm d = lit ''00:00:00.000''"
    by (simp add: format_zero rounded_ms_nonpos)
  moreover have "format_hhmmss_mmm 0 = lit ''00:00:00.000''"
    by (simp add: format_zero rounded_ms_nonpos)
  ultimately show ?thesis using True by (simp add: clamp_negative_eq max_def)
next
  case False
  then show ?thesis by (simp add: clamp_negative_eq max_def)
qed

lemma shift_line_match:
  assumes "TIME_RE_match line = Some (ws, s1, s2, rest)"
    and "parse_hhmmss_mmm s1 = Inr a" "parse_hhmmss_mmm s2 = Inr b"
  shows "shift_line line shift =
    (if td_in_range (a + shift) \<and> td_in_range (b + shift)
     then Inr (ws @ format_hhmmss_mmm (clamp_negative (a + shift)) @ lit '' --> '' @
               format_hhmmss_mmm (clamp_negative (b + shift)) @ rest @ [LF])
     else Inl OverflowError)"
  using assms by (simp add: shift_line_def td_add_def)

lemma format_no_LF: "format_hhmmss_mmm d \<noteq> [] \<and> last (format_hhmmss_mmm d) \<noteq> LF"
proof -
  define X where "X = fmt_d 3 (max 0 (rounded_ms d) mod 1000)"
  have "0 \<le> max 0 (rounded_ms d) mod 1000" by simp
  then have X: "list_all is_digit X" "X \<noteq> []"
    unfolding X_def by (rule fmt_d_digits)+
  then have "last X \<in> set X" "LF \<notin> set X"
    by (simp_all add: digits_notin)
  then have "last X \<noteq> LF" by metis
  moreover obtain P where "format_hhmmss_mmm d = P @ X"
    unfolding X_def format_fields by (metis append.assoc)
  ultimately show ?thesis using X(2) by simp
qed

lemma w_match: "TIME_RE_match (lit ''00:00:05.000 --> 00:00:07.500'') =
    Some ([], (lit ''00:00:05.000''), (lit ''00:00:07.500''), [])"
  by (simp add: eval_match)

lemma w_parse: "parse_hhmmss_mmm (lit ''00:00:05.000'') = Inr 5000000"
  "parse_hhmmss_mmm (lit ''00:00:07.500'') = Inr 7500000"
  by (simp_all add: eval_parse)

lemma w_fmt_0: "format_hhmmss_mmm 0 = (lit ''00:00:00.000'')"
  by (simp add: format_zero rounded_ms_nonpos)

lemma w_fmt_1500: "format_hhmmss_mmm 1500000 = (lit ''00:00:01.500'')"
proof -
  have "\<bar>1500 :: int\<bar> \<le> 2 ^ 50" by simp
  from format_whole_ms [OF this] show ?thesis by (simp add: eval_fmt)
qed

lemma w_fmt_5000: "format_hhmmss_mmm 5000000 = (lit ''00:00:05.000'')"
proof -
  have "\<bar>5000 :: int\<bar> \<le> 2 ^ 50" by simp
  from format_whole_ms [OF this] show ?thesis by (simp add: eval_fmt)
qed

lemma w_fmt_7500: "format_hhmmss_mmm 7500000 = (lit ''00:00:07.500'')"
proof -
  have "\<bar>7500 :: int\<bar> \<le> 2 ^ 50" by simp
  from format_whole_ms [OF this] show ?thesis by (simp add: eval_fmt)
qed

lemma w_fmt_1383000: "format_hhmmss_mmm 1383000000 = (lit ''00:23:03.000'')"
proof -
  have "\<bar>1383000 :: int\<bar> \<le> 2 ^ 50" by simp
  from format_whole_ms [OF this] show ?thesis by (simp add: eval_fmt)
qed

lemma w_fmt_1385500: "format_hhmmss_mmm 1385500000 = (lit ''00:23:05.500'')"
proof -
  have "\<bar>1385500 :: int\<bar> \<le> 2 ^ 50" by simp
  from format_whole_ms [OF this] show ?thesis by (simp add: eval_fmt)
qed

section \<open>The rounding at the end of the range\<close>


section \<open>When \<open>parse_hhmmss_mmm\<close> accepts a text\<close>

lemma py_split_one: "py_split sep s = [b] \<longleftrightarrow> s = b \<and> sep \<notin> set b"
proof
  show "py_split sep s = [b] \<Longrightarrow> s = b \<and> sep \<notin> set b"
  proof (induction s arbitrary: b)
    case Nil
    then show ?case by simp
  next
    case (Cons c cs)
    show ?case
    proof (cases "c = sep")
      case True
      with Cons.prems py_split_not_Nil [of sep cs] show ?thesis by simp
    next
      case False
      with Cons.prems py_split_not_Nil [of sep cs]
      obtain p where "py_split sep cs = [p]" "b = c # p"
        by (auto split: list.splits)
      with Cons.IH [of p] False show ?thesis by simp
    qed
  qed
qed (simp add: py_split_notin)

lemma py_split_two:
  "py_split sep s = [a, b] \<longleftrightarrow> s = a @ sep # b \<and> sep \<notin> set a \<and> sep \<notin> set b"
proof
  show "py_split sep s = [a, b] \<Longrightarrow> s = a @ sep # b \<and> sep \<notin> set a \<and> sep \<notin> set b"
  proof (induction s arbitrary: a)
    case Nil
    then show ?case by simp
  next
    case (Cons c cs)
    show ?case
    proof (cases "c = sep")
      case True
      with Cons.prems have "a = []" "py_split sep cs = [b]" by simp_all
      with True show ?thesis by (simp add: py_split_one)
    next
      case False
      with Cons.prems py_split_not_Nil [of sep cs]
      obtain p where "py_split sep cs = [p, b]" "a = c # p"
        by (auto split: list.splits)
      with Cons.IH [of p] False show ?thesis by simp
    qed
  qed
qed (simp add: py_split_append py_split_notin)

lemma parse_fields_3:
  assumes "py_split 46 s = [hms, ms]" "py_split 58 hms = [p1, p2, p3]"
  shows "parse_fields s = Some td \<longleftrightarrow>
    (\<exists>hh mm ss millis. py_int p1 = Some hh \<and> py_int p2 = Some mm \<and> py_int p3 = Some ss \<and>
       py_int ms = Some millis \<and> td = fields_us [hh, mm, ss] millis \<and> td_in_range td)"
  by (auto simp: parse_fields_def assms timedelta_of_def fields_us_def Let_def
      split: option.splits if_splits)

lemma parse_fields_2:
  assumes "py_split 46 s = [hms, ms]" "py_split 58 hms = [p1, p2]"
  shows "parse_fields s = Some td \<longleftrightarrow>
    (\<exists>mm ss millis. py_int p1 = Some mm \<and> py_int p2 = Some ss \<and>
       py_int ms = Some millis \<and> td = fields_us [mm, ss] millis \<and> td_in_range td)"
  by (auto simp: parse_fields_def assms timedelta_of_def fields_us_def Let_def
      split: option.splits if_splits)

lemma parse_fields_other:
  assumes "length (py_split 46 s) \<noteq> 2 \<or>
    (py_split 46 s = [hms, ms] \<and> length (py_split 58 hms) \<noteq> 2 \<and>
     length (py_split 58 hms) \<noteq> 3)"
  shows "parse_fields s = None"
  using assms by (auto simp: parse_fields_def split: list.splits)
lemma parses_to_iff:
  "parses_to s td \<longleftrightarrow>
     (\<exists>hms ms vals millis.
        s = hms @ 46 # ms \<and> 46 \<notin> set hms \<and> 46 \<notin> set ms \<and>
        (length vals = 2 \<or> length vals = 3) \<and>
        map py_int (py_split 58 hms) = map Some vals \<and> py_int ms = Some millis \<and>
        td = fields_us vals millis \<and> td_in_range td)"
  by (simp add: parses_to_def)

lemma parse_fields_Some_iff: "parse_fields s = Some td \<longleftrightarrow> parses_to s td"
proof
  assume ok: "parse_fields s = Some td"
  then have "length (py_split 46 s) = 2"
    using parse_fields_other [of s] by fastforce
  then obtain hms ms where sp: "py_split 46 s = [hms, ms]"
    by (auto simp: length_Suc_conv numeral_2_eq_2)
  then have s: "s = hms @ 46 # ms" "46 \<notin> set hms" "46 \<notin> set ms"
    by (simp_all add: py_split_two)
  from ok sp have len: "length (py_split 58 hms) = 2 \<or> length (py_split 58 hms) = 3"
    using parse_fields_other [of s hms ms] by fastforce
  then show "parses_to s td"
  proof
    assume "length (py_split 58 hms) = 2"
    then obtain p1 p2 where parts: "py_split 58 hms = [p1, p2]"
      by (auto simp: length_Suc_conv numeral_2_eq_2)
    from ok obtain mm ss millis where "py_int p1 = Some mm" "py_int p2 = Some ss"
      "py_int ms = Some millis" "td = fields_us [mm, ss] millis" "td_in_range td"
      unfolding parse_fields_2 [OF sp parts] by blast
    then have "length [mm, ss] = 2 \<or> length [mm, ss] = 3"
      "map py_int (py_split 58 hms) = map Some [mm, ss]"
      "py_int ms = Some millis" "td = fields_us [mm, ss] millis" "td_in_range td"
      by (simp_all add: parts)
    with s show ?thesis unfolding parses_to_iff by blast
  next
    assume "length (py_split 58 hms) = 3"
    then obtain p1 p2 p3 where parts: "py_split 58 hms = [p1, p2, p3]"
      by (auto simp: length_Suc_conv numeral_3_eq_3)
    from ok obtain hh mm ss millis where "py_int p1 = Some hh" "py_int p2 = Some mm"
      "py_int p3 = Some ss" "py_int ms = Some millis" "td = fields_us [hh, mm, ss] millis"
      "td_in_range td"
      unfolding parse_fields_3 [OF sp parts] by blast
    then have "length [hh, mm, ss] = 2 \<or> length [hh, mm, ss] = 3"
      "map py_int (py_split 58 hms) = map Some [hh, mm, ss]"
      "py_int ms = Some millis" "td = fields_us [hh, mm, ss] millis" "td_in_range td"
      by (simp_all add: parts)
    with s show ?thesis unfolding parses_to_iff by blast
  qed
next
  assume "parses_to s td"
  then obtain hms ms vals millis
    where s: "s = hms @ 46 # ms" "46 \<notin> set hms" "46 \<notin> set ms"
      and len: "length vals = 2 \<or> length vals = 3"
      and vals: "map py_int (py_split 58 hms) = map Some vals"
      and rest: "py_int ms = Some millis" "td = fields_us vals millis" "td_in_range td"
    unfolding parses_to_iff by blast
  from s have sp: "py_split 46 s = [hms, ms]"
    by (simp add: py_split_two)
  from len show "parse_fields s = Some td"
  proof
    assume "length vals = 2"
    then obtain mm ss where v: "vals = [mm, ss]"
      by (auto simp: length_Suc_conv numeral_2_eq_2)
    with vals obtain p1 p2 where parts: "py_split 58 hms = [p1, p2]"
      and "py_int p1 = Some mm" "py_int p2 = Some ss"
      by (auto simp: map_eq_Cons_conv)
    with rest v show ?thesis unfolding parse_fields_2 [OF sp parts] by blast
  next
    assume "length vals = 3"
    then obtain hh mm ss where v: "vals = [hh, mm, ss]"
      by (auto simp: length_Suc_conv numeral_3_eq_3)
    with vals obtain p1 p2 p3 where parts: "py_split 58 hms = [p1, p2, p3]"
      and "py_int p1 = Some hh" "py_int p2 = Some mm" "py_int p3 = Some ss"
      by (auto simp: map_eq_Cons_conv)
    with rest v show ?thesis unfolding parse_fields_3 [OF sp parts] by blast
  qed
qed

lemma parse_Inr_iff: "parse_hhmmss_mmm s = Inr td \<longleftrightarrow> parse_fields s = Some td"
  by (simp add: parse_hhmmss_mmm_def split: option.splits)

lemma parse_Inl:
  "parse_hhmmss_mmm s = Inl e \<Longrightarrow> e = ValueError (invalid_time_format s) \<and> parse_fields s = None"
  by (simp add: parse_hhmmss_mmm_def split: option.splits)

section \<open>The claims\<close>

text \<open>
  C1 (as amended).  On a line that \<open>TIME_RE\<close> matches both captured timestamps parse, and
  for every shift whose sums with them are \<open>timedelta\<close>s in range \<open>shift_line\<close> returns
  the leading white space, \<open>format_hhmmss_mmm\<close> of the shifted start, one space, the
  arrow, one space, \<open>format_hhmmss_mmm\<close> of the shifted end, the group \<open>rest\<close> as it
  was, and a line feed; a negative sum is written as the zero duration.
\<close>

theorem shift_line_reconstructs:
  assumes "TIME_RE_match line = Some (ws, s1, s2, rest)"
  shows "\<exists>start_td end_td.
    parse_hhmmss_mmm s1 = Inr start_td \<and> parse_hhmmss_mmm s2 = Inr end_td \<and>
    (td_in_range (start_td + shift) \<and> td_in_range (end_td + shift) \<longrightarrow>
       shift_line line shift =
         Inr (ws @ format_hhmmss_mmm (start_td + shift) @ (lit '' --> '') @
              format_hhmmss_mmm (end_td + shift) @ rest @ [LF]) \<and>
       format_hhmmss_mmm (start_td + shift) = format_hhmmss_mmm (max 0 (start_td + shift)) \<and>
       format_hhmmss_mmm (end_td + shift) = format_hhmmss_mmm (max 0 (end_td + shift)))"
proof -
  from match_parses [OF assms] obtain a b
    where p: "parse_hhmmss_mmm s1 = Inr a" "parse_hhmmss_mmm s2 = Inr b" by blast
  have "format_hhmmss_mmm (d + shift) = format_hhmmss_mmm (max 0 (d + shift))" for d
    using format_clamp_negative [of "d + shift"] by (simp add: clamp_negative_eq)
  moreover have "td_in_range (a + shift) \<and> td_in_range (b + shift) \<longrightarrow>
       shift_line line shift =
         Inr (ws @ format_hhmmss_mmm (a + shift) @ (lit '' --> '') @
              format_hhmmss_mmm (b + shift) @ rest @ [LF])"
    by (simp add: shift_line_match [OF assms p] format_clamp_negative)
  ultimately show ?thesis using p by blast
qed

theorem shift_line_reconstructs_witness:
  "shift_line (lit ''00:00:05.000 --> 00:00:07.500'') 1378000000 =
     Inr ((lit ''00:23:03.000 --> 00:23:05.500'') @ [LF])"
proof -
  from shift_line_reconstructs [OF w_match, of 1378000000] w_parse
  have "td_in_range (5000000 + 1378000000) \<and> td_in_range (7500000 + 1378000000) \<longrightarrow>
       shift_line (lit ''00:00:05.000 --> 00:00:07.500'') 1378000000 =
         Inr ([] @ format_hhmmss_mmm (5000000 + 1378000000) @ (lit '' --> '') @
              format_hhmmss_mmm (7500000 + 1378000000) @ [] @ [LF])"
    by auto
  then show ?thesis
    by (simp add: td_in_range_def td_min_def td_max_def w_fmt_1383000 w_fmt_1385500)
qed

theorem shift_line_overflow_counterexample:
  "TIME_RE_match (lit ''00:00:05.000 --> 00:00:07.500'') =
     Some ([], (lit ''00:00:05.000''), (lit ''00:00:07.500''), []) \<and>
   td_in_range td_max \<and>
   shift_line (lit ''00:00:05.000 --> 00:00:07.500'') td_max = Inl OverflowError"
proof (intro conjI)
  show "TIME_RE_match (lit ''00:00:05.000 --> 00:00:07.500'') =
     Some ([], (lit ''00:00:05.000''), (lit ''00:00:07.500''), [])"
    by (rule w_match)
  show "td_in_range td_max" by (simp add: td_in_range_def td_min_def td_max_def)
  show "shift_line (lit ''00:00:05.000 --> 00:00:07.500'') td_max = Inl OverflowError"
    unfolding shift_line_match [OF w_match w_parse]
    by (simp add: td_in_range_def td_min_def td_max_def)
qed




text \<open>
  C3.  A line that \<open>TIME_RE\<close> does not match (a header \<open>WEBVTT\<close>, a blank line, cue text)
  comes back from \<open>shift_line\<close> unchanged, its line terminator included, whatever the
  shift.
\<close>

theorem shift_line_no_match_identity:
  "TIME_RE_match line = None \<Longrightarrow> shift_line line shift = Inr line"
  by (simp add: shift_line_def)

theorem shift_line_no_match_identity_witness:
  "TIME_RE_match ((lit ''WEBVTT'') @ [LF]) = None \<and>
   shift_line ((lit ''WEBVTT'') @ [LF]) 1378000000 = Inr ((lit ''WEBVTT'') @ [LF])"
proof -
  have "TIME_RE_match ((lit ''WEBVTT'') @ [LF]) = None"
    by (simp add: TIME_RE_match_def timestamp_at_def is_space_def is_digit_def LF_def)
  with shift_line_no_match_identity [of "(lit ''WEBVTT'') @ [LF]" 1378000000] show ?thesis by simp
qed

text \<open>
  C4.  \<open>TIME_RE\<close> matches a line if and only if the line consists of optional leading white
  space, a timestamp \<open>HH:MM:SS.mmm\<close> or \<open>MM:SS.mmm\<close>, optional white space, the arrow
  \<open>-->\<close>, optional white space, a second timestamp in either form, and any remaining
  text to the end of the line.  The match starts at the head of the line: an arrow that
  stands elsewhere, without this prefix before it, gives no match.  The line is any
  sequence of code points; its digits and white space are those of Unicode, as \<open>\d\<close> and
  \<open>\s\<close> of a \<open>str\<close> pattern take them.
\<close>

theorem TIME_RE_match_iff_timing_line:
  "(\<exists>groups. TIME_RE_match line = Some groups) \<longleftrightarrow> timing_line_form line"
proof
  assume "\<exists>groups. TIME_RE_match line = Some groups"
  then obtain ws s1 s2 rest where "TIME_RE_match line = Some (ws, s1, s2, rest)"
    by (metis prod_cases4)
  from TIME_RE_match_Some [OF this] show "timing_line_form line"
    unfolding timing_line_form_def by blast
next
  assume "timing_line_form line"
  then obtain ws s1 w1 w2 s2 rest eol
    where "line = ws @ s1 @ w1 @ (lit ''-->'') @ w2 @ s2 @ rest @ eol"
      and "list_all is_space ws" "timestamp_form s1" "list_all is_space w1"
      and "list_all is_space w2" "timestamp_form s2" "LF \<notin> set rest" "eol = [] \<or> eol = [LF]"
    unfolding timing_line_form_def by blast
  then have "TIME_RE_match line = Some (ws, s1, s2, rest)" by (rule TIME_RE_match_form)
  then show "\<exists>groups. TIME_RE_match line = Some groups" by blast
qed

theorem TIME_RE_match_iff_timing_line_witness:
  "timing_line_form ((lit '' 01:02.500-->  00:01:03.000 align:start'') @ [LF]) \<and>
   \<not> timing_line_form ((lit ''x 00:00:01.000 --> 00:00:02.000'') @ [LF]) \<and>
   timing_line_form
     ([0x660, 0x660, 0x3A, 0x660, 0x660, 0x3A, 0x660, 0x665, 0x2E, 0x660, 0x660, 0x660,
       0x3000, 0x2D, 0x2D, 0x3E, 0x3000,
       0x660, 0x660, 0x3A, 0x660, 0x660, 0x3A, 0x660, 0x667, 0x2E, 0x665, 0x660, 0x660, LF])"
proof -
  have "TIME_RE_match ((lit '' 01:02.500-->  00:01:03.000 align:start'') @ [LF]) =
      Some ((lit '' ''), (lit ''01:02.500''), (lit ''00:01:03.000''), (lit '' align:start''))"
    by (simp add: eval_match)
  moreover have "TIME_RE_match ((lit ''x 00:00:01.000 --> 00:00:02.000'') @ [LF]) = None"
    by (simp add: eval_match)
  moreover have "TIME_RE_match
     ([0x660, 0x660, 0x3A, 0x660, 0x660, 0x3A, 0x660, 0x665, 0x2E, 0x660, 0x660, 0x660,
       0x3000, 0x2D, 0x2D, 0x3E, 0x3000,
       0x660, 0x660, 0x3A, 0x660, 0x660, 0x3A, 0x660, 0x667, 0x2E, 0x665, 0x660, 0x660, LF]) =
     Some ([], [0x660, 0x660, 0x3A, 0x660, 0x660, 0x3A, 0x660, 0x665, 0x2E, 0x660, 0x660, 0x660],
       [0x660, 0x660, 0x3A, 0x660, 0x660, 0x3A, 0x660, 0x667, 0x2E, 0x665, 0x660, 0x660], [])"
    by (simp add: TIME_RE_match_def timestamp_at_def is_space_def is_digit_def digit_zero_def
        digit_zeros_def LF_def)
  ultimately show ?thesis
    using TIME_RE_match_iff_timing_line [of "(lit '' 01:02.500-->  00:01:03.000 align:start'') @ [LF]"]
      TIME_RE_match_iff_timing_line [of "(lit ''x 00:00:01.000 --> 00:00:02.000'') @ [LF]"]
      TIME_RE_match_iff_timing_line
        [of "[0x660, 0x660, 0x3A, 0x660, 0x660, 0x3A, 0x660, 0x665, 0x2E, 0x660, 0x660, 0x660,
       0x3000, 0x2D, 0x2D, 0x3E, 0x3000,
       0x660, 0x660, 0x3A, 0x660, 0x660, 0x3A, 0x660, 0x667, 0x2E, 0x665, 0x660, 0x660, LF]"]
    by simp
qed

text \<open>
  C5 (as amended).  \<open>parse_hhmmss_mmm\<close> returns a duration exactly when the text is a
  time-of-day part, one \<open>.\<close> and a milliseconds part, the time-of-day part splits on \<open>:\<close>
  into two or three fields, \<open>int()\<close> accepts every field and the milliseconds part (a sign,
  white space around the digits and single underscores between them are accepted, so a
  field may be negative), and the duration lies in the range of \<open>timedelta\<close>; in every
  other case it fails with the \<open>ValueError\<close> that carries the text.  In particular it
  fails when the \<open>.\<close> is missing and when the field count is not two or three, and it
  succeeds when the two or three fields and the milliseconds are non-empty strings of
  at most 4300 digits (the limit \<open>int()\<close> puts on a decimal text) whose duration is in
  range.
\<close>

theorem parse_fails_exactly_when:
  "(parse_hhmmss_mmm s = Inr td \<longleftrightarrow> parses_to s td) \<and>
   (parse_hhmmss_mmm s = Inl (ValueError (invalid_time_format s)) \<longleftrightarrow> (\<forall>d. \<not> parses_to s d)) \<and>
   (parse_hhmmss_mmm s = Inl e \<longrightarrow> e = ValueError (invalid_time_format s)) \<and>
   (of_char (CHR ''.'') \<notin> set s \<longrightarrow> parse_hhmmss_mmm s = Inl (ValueError (invalid_time_format s))) \<and>
   (of_char (CHR ''.'') \<notin> set hms \<and> of_char (CHR ''.'') \<notin> set ms \<and>
    length (py_split (of_char (CHR '':'')) hms) \<noteq> 2 \<and> length (py_split (of_char (CHR '':'')) hms) \<noteq> 3 \<longrightarrow>
      parse_hhmmss_mmm (hms @ (lit ''.'') @ ms) =
        Inl (ValueError (invalid_time_format (hms @ (lit ''.'') @ ms)))) \<and>
   (list_all is_digit H \<and> H \<noteq> [] \<and> list_all is_digit M \<and> M \<noteq> [] \<and>
    list_all is_digit S \<and> S \<noteq> [] \<and> list_all is_digit F \<and> F \<noteq> [] \<and>
    length H \<le> int_max_str_digits \<and> length M \<le> int_max_str_digits \<and>
    length S \<le> int_max_str_digits \<and> length F \<le> int_max_str_digits \<longrightarrow>
      (td_in_range (duration_us (decimal_value H) (decimal_value M) (decimal_value S) (decimal_value F)) \<longrightarrow>
         parse_hhmmss_mmm (H @ (lit '':'') @ M @ (lit '':'') @ S @ (lit ''.'') @ F) =
           Inr (duration_us (decimal_value H) (decimal_value M) (decimal_value S) (decimal_value F))) \<and>
      (td_in_range (duration_us 0 (decimal_value M) (decimal_value S) (decimal_value F)) \<longrightarrow>
         parse_hhmmss_mmm (M @ (lit '':'') @ S @ (lit ''.'') @ F) =
           Inr (duration_us 0 (decimal_value M) (decimal_value S) (decimal_value F))))"
proof (intro conjI impI)
  show "parse_hhmmss_mmm s = Inr td \<longleftrightarrow> parses_to s td"
    by (simp add: parse_Inr_iff parse_fields_Some_iff)
  show "parse_hhmmss_mmm s = Inl (ValueError (invalid_time_format s)) \<longleftrightarrow> (\<forall>d. \<not> parses_to s d)"
    by (cases "parse_fields s")
      (auto simp: parse_hhmmss_mmm_def simp flip: parse_fields_Some_iff)
  show "e = ValueError (invalid_time_format s)" if "parse_hhmmss_mmm s = Inl e"
    using that by (simp add: parse_Inl)
  show "parse_hhmmss_mmm s = Inl (ValueError (invalid_time_format s))" if "of_char (CHR ''.'') \<notin> set s"
    using that by (intro parse_none parse_fields_other) (simp add: py_split_notin)
next
  assume a: "of_char (CHR ''.'') \<notin> set hms \<and> of_char (CHR ''.'') \<notin> set ms \<and>
    length (py_split (of_char (CHR '':'')) hms) \<noteq> 2 \<and> length (py_split (of_char (CHR '':'')) hms) \<noteq> 3"
  then have sp: "py_split 46 (hms @ 46 # ms) = [hms, ms]"
    by (simp add: py_split_two)
  from a have n: "length (py_split 58 hms) \<noteq> 2" "length (py_split 58 hms) \<noteq> 3"
    by simp_all
  have eq: "hms @ (lit ''.'') @ ms = hms @ 46 # ms" by simp
  from sp n have "parse_fields (hms @ 46 # ms) = None"
    by (intro parse_fields_other) blast
  then show "parse_hhmmss_mmm (hms @ (lit ''.'') @ ms) =
        Inl (ValueError (invalid_time_format (hms @ (lit ''.'') @ ms)))"
    unfolding eq by (rule parse_none)
next
  assume d: "list_all is_digit H \<and> H \<noteq> [] \<and> list_all is_digit M \<and> M \<noteq> [] \<and>
    list_all is_digit S \<and> S \<noteq> [] \<and> list_all is_digit F \<and> F \<noteq> [] \<and>
    length H \<le> int_max_str_digits \<and> length M \<le> int_max_str_digits \<and>
    length S \<le> int_max_str_digits \<and> length F \<le> int_max_str_digits"
  show "parse_hhmmss_mmm (H @ (lit '':'') @ M @ (lit '':'') @ S @ (lit ''.'') @ F) =
           Inr (duration_us (decimal_value H) (decimal_value M) (decimal_value S) (decimal_value F))"
    if "td_in_range (duration_us (decimal_value H) (decimal_value M) (decimal_value S) (decimal_value F))"
    using d that parse_fields_hms [of H M S F] by (intro parse_some) simp
  show "parse_hhmmss_mmm (M @ (lit '':'') @ S @ (lit ''.'') @ F) =
           Inr (duration_us 0 (decimal_value M) (decimal_value S) (decimal_value F))"
    if "td_in_range (duration_us 0 (decimal_value M) (decimal_value S) (decimal_value F))"
    using d that parse_fields_ms [of M S F] by (intro parse_some) simp
qed

theorem parse_fails_exactly_when_witness:
  "parses_to (lit ''01:02.500'') 62500000 \<and> (\<forall>d. \<not> parses_to (lit ''12:34'') d) \<and>
   parse_hhmmss_mmm (lit ''12:34'') = Inl (ValueError (invalid_time_format (lit ''12:34''))) \<and>
   parse_hhmmss_mmm (lit ''1.000'') = Inl (ValueError (invalid_time_format (lit ''1.000''))) \<and>
   parse_hhmmss_mmm (lit ''100:02:03.4'') = Inr 360123004000 \<and>
   parse_hhmmss_mmm (lit ''02:03.4'') = Inr 123004000"
proof -
  note t1 = parse_fails_exactly_when [where s = "(lit ''01:02.500'')" and td = 62500000
      and e = OverflowError and hms = "(lit ''1'')" and ms = "(lit ''000'')"
      and H = "(lit ''100'')" and M = "(lit ''02'')" and S = "(lit ''03'')" and F = "(lit ''4'')"]
  note t2 = parse_fails_exactly_when [where s = "(lit ''12:34'')" and td = 0
      and e = OverflowError and hms = "(lit ''1'')" and ms = "(lit ''000'')"
      and H = "(lit ''100'')" and M = "(lit ''02'')" and S = "(lit ''03'')" and F = "(lit ''4'')"]
  have p: "parse_hhmmss_mmm (lit ''01:02.500'') = Inr 62500000" by (simp add: eval_parse)
  with t1 [THEN conjunct1] have a: "parses_to (lit ''01:02.500'') 62500000" by (rule iffD1)
  have "of_char (CHR ''.'') \<notin> set (lit ''12:34'')" by simp
  with t2 [THEN conjunct2, THEN conjunct2, THEN conjunct2, THEN conjunct1]
  have b: "parse_hhmmss_mmm (lit ''12:34'') = Inl (ValueError (invalid_time_format (lit ''12:34'')))"
    by (rule mp)
  with t2 [THEN conjunct2, THEN conjunct1] have c: "\<forall>d. \<not> parses_to (lit ''12:34'') d"
    by (rule iffD1)
  have "of_char (CHR ''.'') \<notin> set (lit ''1'') \<and> of_char (CHR ''.'') \<notin> set (lit ''000'') \<and>
      length (py_split (of_char (CHR '':'')) (lit ''1'')) \<noteq> 2 \<and> length (py_split (of_char (CHR '':'')) (lit ''1'')) \<noteq> 3"
    by simp
  with t2 [THEN conjunct2, THEN conjunct2, THEN conjunct2, THEN conjunct2, THEN conjunct1]
  have "parse_hhmmss_mmm ((lit ''1'') @ (lit ''.'') @ (lit ''000'')) =
      Inl (ValueError (invalid_time_format ((lit ''1'') @ (lit ''.'') @ (lit ''000''))))"
    by (rule mp)
  then have d: "parse_hhmmss_mmm (lit ''1.000'') = Inl (ValueError (invalid_time_format (lit ''1.000'')))"
    by simp
  have "list_all is_digit (lit ''100'') \<and> (lit ''100'') \<noteq> [] \<and> list_all is_digit (lit ''02'') \<and> (lit ''02'') \<noteq> [] \<and>
      list_all is_digit (lit ''03'') \<and> (lit ''03'') \<noteq> [] \<and> list_all is_digit (lit ''4'') \<and> (lit ''4'') \<noteq> [] \<and>
      length (lit ''100'') \<le> int_max_str_digits \<and> length (lit ''02'') \<le> int_max_str_digits \<and>
      length (lit ''03'') \<le> int_max_str_digits \<and> length (lit ''4'') \<le> int_max_str_digits"
    by (simp add: is_digit_below int_max_str_digits_def)
  with t2 [THEN conjunct2, THEN conjunct2, THEN conjunct2, THEN conjunct2, THEN conjunct2]
  have e: "(td_in_range (duration_us (decimal_value (lit ''100'')) (decimal_value (lit ''02''))
          (decimal_value (lit ''03'')) (decimal_value (lit ''4''))) \<longrightarrow>
        parse_hhmmss_mmm ((lit ''100'') @ (lit '':'') @ (lit ''02'') @ (lit '':'') @ (lit ''03'') @ (lit ''.'') @ (lit ''4'')) =
          Inr (duration_us (decimal_value (lit ''100'')) (decimal_value (lit ''02''))
            (decimal_value (lit ''03'')) (decimal_value (lit ''4'')))) \<and>
      (td_in_range (duration_us 0 (decimal_value (lit ''02'')) (decimal_value (lit ''03''))
          (decimal_value (lit ''4''))) \<longrightarrow>
        parse_hhmmss_mmm ((lit ''02'') @ (lit '':'') @ (lit ''03'') @ (lit ''.'') @ (lit ''4'')) =
          Inr (duration_us 0 (decimal_value (lit ''02'')) (decimal_value (lit ''03'')) (decimal_value (lit ''4''))))"
    by (rule mp)
  from e have f: "parse_hhmmss_mmm (lit ''100:02:03.4'') = Inr 360123004000"
    "parse_hhmmss_mmm (lit ''02:03.4'') = Inr 123004000"
    by (simp_all add: decimal_value_def digit_val_below duration_us_def
        td_in_range_def td_min_def td_max_def)
  from a b c d f show ?thesis by (intro conjI)
qed

theorem parse_negative_field_counterexample:
  "py_split (of_char (CHR '':'')) (lit ''-1:00:00'') = [(lit ''-1''), (lit ''00''), (lit ''00'')] \<and> py_int (lit ''-1'') = Some (- 1) \<and>
   parse_hhmmss_mmm (lit ''-1:00:00.000'') = Inr (- 3600000000) \<and>
   py_int (lit ''99999999999'') = Some 99999999999 \<and>
   parse_hhmmss_mmm (lit ''99999999999:00:00.000'') =
     Inl (ValueError (invalid_time_format (lit ''99999999999:00:00.000'')))"
  by (simp add: eval_parse)

text \<open>
  C6.  \<open>format_hhmmss_mmm\<close> writes every negative duration as \<open>00:00:00.000\<close>.
\<close>

theorem format_negative_is_zero:
  "d < 0 \<Longrightarrow> format_hhmmss_mmm d = (lit ''00:00:00.000'')"
  by (simp add: format_zero rounded_ms_nonpos)

theorem format_negative_is_zero_witness:
  "(- 594500000 :: int) < 0 \<and> format_hhmmss_mmm (- 594500000) = (lit ''00:00:00.000'')"
  using format_negative_is_zero [of "- 594500000"] by simp

text \<open>
  C7 (as amended).  On a line that \<open>TIME_RE\<close> matches, \<open>parse_hhmmss_mmm\<close> never fails
  on the two captured timestamps.  \<open>shift_line\<close> returns a line for every unmatched
  line, and for a matched line exactly when the sums of the shift with both parsed
  timestamps are \<open>timedelta\<close>s in range, which holds for every shift from
  \<open>timedelta.min\<close> to \<open>timedelta.max\<close> less 99:99:99.999; otherwise the addition raises
  \<open>OverflowError\<close>.
\<close>

theorem shift_line_total_in_range:
  "(TIME_RE_match line = None \<longrightarrow> shift_line line shift = Inr line) \<and>
   (\<forall>ws s1 s2 rest. TIME_RE_match line = Some (ws, s1, s2, rest) \<longrightarrow>
      (\<exists>start_td end_td.
         parse_hhmmss_mmm s1 = Inr start_td \<and> parse_hhmmss_mmm s2 = Inr end_td \<and>
         (if td_in_range (start_td + shift) \<and> td_in_range (end_td + shift)
          then \<exists>out. shift_line line shift = Inr out
          else shift_line line shift = Inl OverflowError))) \<and>
   (td_min \<le> shift \<and> shift \<le> td_max - 362439999000 \<longrightarrow>
      (\<exists>out. shift_line line shift = Inr out))"
proof (intro conjI allI impI)
  assume "TIME_RE_match line = None"
  then show "shift_line line shift = Inr line" by (simp add: shift_line_def)
next
  fix ws s1 s2 rest
  assume m: "TIME_RE_match line = Some (ws, s1, s2, rest)"
  from match_parses [OF m] obtain a b
    where p: "parse_hhmmss_mmm s1 = Inr a" "parse_hhmmss_mmm s2 = Inr b" by blast
  have "if td_in_range (a + shift) \<and> td_in_range (b + shift)
      then \<exists>out. shift_line line shift = Inr out
      else shift_line line shift = Inl OverflowError"
    by (simp add: shift_line_match [OF m p])
  with p show "\<exists>start_td end_td.
         parse_hhmmss_mmm s1 = Inr start_td \<and> parse_hhmmss_mmm s2 = Inr end_td \<and>
         (if td_in_range (start_td + shift) \<and> td_in_range (end_td + shift)
          then \<exists>out. shift_line line shift = Inr out
          else shift_line line shift = Inl OverflowError)"
    by blast
next
  assume s: "td_min \<le> shift \<and> shift \<le> td_max - 362439999000"
  show "\<exists>out. shift_line line shift = Inr out"
  proof (cases "TIME_RE_match line")
    case None
    then show ?thesis by (simp add: shift_line_def)
  next
    case (Some g)
    then obtain ws s1 s2 rest where m: "TIME_RE_match line = Some (ws, s1, s2, rest)"
      by (metis prod_cases4)
    from match_parses [OF m] obtain a b
      where p: "parse_hhmmss_mmm s1 = Inr a" "parse_hhmmss_mmm s2 = Inr b"
        and r: "0 \<le> a" "a \<le> 362439999000" "0 \<le> b" "b \<le> 362439999000" by blast
    from s r have "td_in_range (a + shift)" "td_in_range (b + shift)"
      by (simp_all add: td_in_range_def)
    then show ?thesis by (simp add: shift_line_match [OF m p])
  qed
qed

theorem shift_line_total_in_range_witness:
  "\<exists>out. shift_line (lit ''00:00:05.000 --> 00:00:07.500'') (- 600000000) = Inr out"
  using shift_line_total_in_range [of "(lit ''00:00:05.000 --> 00:00:07.500'')" "- 600000000"]
  by (simp add: td_min_def td_max_def)

theorem shift_line_raises_counterexample:
  "td_in_range (td_max - 1000000) \<and>
   shift_line ((lit ''00:00:01.000 --> 00:00:02.000'') @ [LF]) (td_max - 1000000) = Inl OverflowError"
proof -
  have m: "TIME_RE_match ((lit ''00:00:01.000 --> 00:00:02.000'') @ [LF]) =
      Some ([], (lit ''00:00:01.000''), (lit ''00:00:02.000''), [])"
    by (simp add: eval_match)
  have p: "parse_hhmmss_mmm (lit ''00:00:01.000'') = Inr 1000000"
    "parse_hhmmss_mmm (lit ''00:00:02.000'') = Inr 2000000"
    by (simp_all add: eval_parse)
  show ?thesis
    unfolding shift_line_match [OF m p] by (simp add: td_in_range_def td_min_def td_max_def)
qed

text \<open>
  C8.  In a timestamp whose fractional field has one to three digits,
  \<open>parse_hhmmss_mmm\<close> takes that field as the number of milliseconds it spells, without
  scaling by its width: \<open>00:00:00.5\<close> is 5 milliseconds, \<open>00:00:00.500\<close> is 500.
  This holds for the timestamps of two-digit fields, with or without hours, and also when
  the hours have more digits, as long as the duration is in the range of \<open>timedelta\<close>.
\<close>

theorem parse_fraction_is_literal_millis:
  assumes "digits 2 hh" "digits 2 mm" "digits 2 ss"
    and "list_all is_digit f" "1 \<le> length f" "length f \<le> 3"
  shows "parse_hhmmss_mmm (hh @ (lit '':'') @ mm @ (lit '':'') @ ss @ (lit ''.'') @ f) =
      Inr (duration_us (decimal_value hh) (decimal_value mm) (decimal_value ss) (decimal_value f)) \<and>
    parse_hhmmss_mmm (mm @ (lit '':'') @ ss @ (lit ''.'') @ f) =
      Inr (duration_us 0 (decimal_value mm) (decimal_value ss) (decimal_value f)) \<and>
    (list_all is_digit H \<and> H \<noteq> [] \<and> length H \<le> int_max_str_digits \<and>
     td_in_range (duration_us (decimal_value H) (decimal_value mm) (decimal_value ss)
       (decimal_value f)) \<longrightarrow>
       parse_hhmmss_mmm (H @ (lit '':'') @ mm @ (lit '':'') @ ss @ (lit ''.'') @ f) =
         Inr (duration_us (decimal_value H) (decimal_value mm) (decimal_value ss)
           (decimal_value f)))"
proof -
  note d = digits_fields [OF assms(1)] digits_fields [OF assms(2)] digits_fields [OF assms(3)]
  from assms(5,6) have f: "f \<noteq> []" "length f \<le> 4300" by auto
  have "decimal_value f < 10 ^ length f" using assms(4) by (rule decimal_value_less)
  also have "(10::nat) ^ length f \<le> 10 ^ 3" using assms(6) by (intro power_increasing) simp_all
  finally have r: "decimal_value hh < 10 ^ 2" "decimal_value mm < 10 ^ 2"
    "decimal_value ss < 10 ^ 2" "decimal_value f < 10 ^ 3" "(0::nat) < 10 ^ 2"
    using d by simp_all
  have "parse_fields (hh @ (lit '':'') @ mm @ (lit '':'') @ ss @ (lit ''.'') @ f) =
      Some (duration_us (decimal_value hh) (decimal_value mm) (decimal_value ss) (decimal_value f))"
    using d f assms(4)
    by (subst parse_fields_hms)
      (simp_all add: timestamp_range(3) [OF r(1,2,3,4)] int_max_str_digits_def)
  moreover have "parse_fields (mm @ (lit '':'') @ ss @ (lit ''.'') @ f) =
      Some (duration_us 0 (decimal_value mm) (decimal_value ss) (decimal_value f))"
    using d f assms(4)
    by (subst parse_fields_ms)
      (simp_all add: timestamp_range(3) [OF r(5,2,3,4)] int_max_str_digits_def)
  moreover have "parse_hhmmss_mmm (H @ (lit '':'') @ mm @ (lit '':'') @ ss @ (lit ''.'') @ f) =
      Inr (duration_us (decimal_value H) (decimal_value mm) (decimal_value ss) (decimal_value f))"
    if "list_all is_digit H" "H \<noteq> []" "length H \<le> int_max_str_digits"
      "td_in_range (duration_us (decimal_value H) (decimal_value mm) (decimal_value ss)
        (decimal_value f))"
  proof -
    have "parse_fields (H @ (lit '':'') @ mm @ (lit '':'') @ ss @ (lit ''.'') @ f) =
      Some (duration_us (decimal_value H) (decimal_value mm) (decimal_value ss) (decimal_value f))"
      using d f assms(4) that
      by (subst parse_fields_hms) (simp_all add: int_max_str_digits_def)
    then show ?thesis by (rule parse_some)
  qed
  ultimately show ?thesis by (simp add: parse_some)
qed

theorem parse_fraction_is_literal_millis_witness:
  "parse_hhmmss_mmm (lit ''00:00:00.5'') = Inr 5000 \<and>
   parse_hhmmss_mmm (lit ''00:00:00.500'') = Inr 500000 \<and>
   parse_hhmmss_mmm (lit ''00:00.5'') = Inr 5000 \<and>
   parse_hhmmss_mmm (lit ''100:00:00.5'') = Inr 360000005000"
proof -
  have d: "digits 2 (lit ''00'')" by (simp add: digits_def is_digit_below)
  have f: "list_all is_digit (lit ''5'')" "1 \<le> length (lit ''5'')" "length (lit ''5'') \<le> 3"
    "list_all is_digit (lit ''500'')" "1 \<le> length (lit ''500'')" "length (lit ''500'') \<le> 3"
    by (simp_all add: is_digit_below)
  have h: "list_all is_digit (lit ''100'') \<and> lit ''100'' \<noteq> [] \<and>
      length (lit ''100'') \<le> int_max_str_digits \<and>
      td_in_range (duration_us (decimal_value (lit ''100'')) (decimal_value (lit ''00''))
        (decimal_value (lit ''00'')) (decimal_value (lit ''5'')))"
    by (simp add: is_digit_below int_max_str_digits_def decimal_value_def digit_val_below
        duration_us_def td_in_range_def td_min_def td_max_def)
  note t1 = parse_fraction_is_literal_millis [OF d d d f(1,2,3), where H = "lit ''100''"]
  note t2 = parse_fraction_is_literal_millis [OF d d d f(4,5,6), where H = "lit ''100''"]
  from t1 [THEN conjunct2, THEN conjunct2] h
  have "parse_hhmmss_mmm (lit ''100'' @ (lit '':'') @ lit ''00'' @ (lit '':'') @ lit ''00'' @
      (lit ''.'') @ lit ''5'') =
    Inr (duration_us (decimal_value (lit ''100'')) (decimal_value (lit ''00''))
      (decimal_value (lit ''00'')) (decimal_value (lit ''5'')))"
    by (rule mp)
  with t1 [THEN conjunct1] t1 [THEN conjunct2, THEN conjunct1] t2 [THEN conjunct1]
  show ?thesis by (simp add: decimal_value_def digit_val_below duration_us_def)
qed

text \<open>
  C9.  On a matched line whose parsed start is not after its parsed end, the start that
  \<open>shift_line\<close> writes (shifted, then clamped at zero) is not after the end that it
  writes: adding the same shift to both and clamping each keeps their order.
\<close>

theorem shift_keeps_order:
  assumes "TIME_RE_match line = Some (ws, s1, s2, rest)"
    and "parse_hhmmss_mmm s1 = Inr start_td" "parse_hhmmss_mmm s2 = Inr end_td"
    and "start_td \<le> end_td"
    and "td_add start_td shift = Inr new_start" "td_add end_td shift = Inr new_end"
  shows "clamp_negative new_start \<le> clamp_negative new_end \<and>
    shift_line line shift =
      Inr (ws @ format_hhmmss_mmm (clamp_negative new_start) @ (lit '' --> '') @
           format_hhmmss_mmm (clamp_negative new_end) @ rest @ [LF])"
proof -
  from assms(5,6) have n: "new_start = start_td + shift" "new_end = end_td + shift"
    and r: "td_in_range (start_td + shift)" "td_in_range (end_td + shift)"
    by (auto simp: td_add_def split: if_splits)
  from assms(4) have "clamp_negative new_start \<le> clamp_negative new_end"
    by (simp add: n clamp_negative_eq)
  moreover have "shift_line line shift =
      Inr (ws @ format_hhmmss_mmm (clamp_negative new_start) @ (lit '' --> '') @
           format_hhmmss_mmm (clamp_negative new_end) @ rest @ [LF])"
    using r by (simp add: shift_line_match [OF assms(1-3)] n)
  ultimately show ?thesis by simp
qed

theorem shift_keeps_order_witness:
  "clamp_negative (- 1000000) \<le> clamp_negative 1500000 \<and>
   shift_line (lit ''00:00:05.000 --> 00:00:07.500'') (- 6000000) =
     Inr ((lit ''00:00:00.000 --> 00:00:01.500'') @ [LF])"
proof -
  have a: "td_add 5000000 (- 6000000) = Inr (- 1000000)"
    "td_add 7500000 (- 6000000) = Inr 1500000"
    by (simp_all add: td_add_def td_in_range_def td_min_def td_max_def)
  have f: "format_hhmmss_mmm (clamp_negative (- 1000000)) = (lit ''00:00:00.000'')"
    "format_hhmmss_mmm (clamp_negative 1500000) = (lit ''00:00:01.500'')"
    by (simp_all add: clamp_negative_eq w_fmt_0 w_fmt_1500)
  have "(5000000 :: int) \<le> 7500000" by simp
  from shift_keeps_order [OF w_match w_parse this a] show ?thesis by (simp add: f)
qed

text \<open>
  C10.  On a matched line the group \<open>rest\<close> never holds the line feed, and the line that
  \<open>shift_line\<close> returns ends with exactly one line feed, also when the input line had
  none: a last line without terminator gains one.
\<close>

theorem shift_line_one_line_feed:
  assumes "TIME_RE_match line = Some (ws, s1, s2, rest)"
    and "shift_line line shift = Inr out"
  shows "LF \<notin> set rest \<and> (\<exists>body. out = body @ [LF] \<and> body \<noteq> [] \<and> last body \<noteq> LF)"
proof -
  from TIME_RE_match_Some [OF assms(1)] have rest: "LF \<notin> set rest" by blast
  from match_parses [OF assms(1)] obtain a b
    where p: "parse_hhmmss_mmm s1 = Inr a" "parse_hhmmss_mmm s2 = Inr b" by blast
  define E where "E = format_hhmmss_mmm (clamp_negative (b + shift))"
  define body where "body = (ws @ format_hhmmss_mmm (clamp_negative (a + shift)) @ (lit '' --> '')) @ E @ rest"
  from assms(2) have out: "out = body @ [LF]"
    by (simp add: shift_line_match [OF assms(1) p] body_def E_def split: if_splits)
  have E: "E \<noteq> []" "last E \<noteq> LF" using format_no_LF [of "clamp_negative (b + shift)"]
    by (simp_all add: E_def)
  have "last body \<noteq> LF"
  proof (cases "rest = []")
    case True
    with E show ?thesis by (simp add: body_def)
  next
    case False
    then have "last body = last rest" by (simp add: body_def)
    with False rest show ?thesis using last_in_set [of rest] by metis
  qed
  moreover have "body \<noteq> []" using E by (simp add: body_def)
  ultimately show ?thesis using rest out by blast
qed

theorem shift_line_one_line_feed_witness:
  "shift_line (lit ''00:00:05.000 --> 00:00:07.500'') 0 = Inr ((lit ''00:00:05.000 --> 00:00:07.500'') @ [LF]) \<and>
   (\<exists>body. (lit ''00:00:05.000 --> 00:00:07.500'') @ [LF] = body @ [LF] \<and> body \<noteq> [] \<and> last body \<noteq> LF)"
proof -
  have s: "shift_line (lit ''00:00:05.000 --> 00:00:07.500'') 0 =
      Inr ((lit ''00:00:05.000 --> 00:00:07.500'') @ [LF])"
    unfolding shift_line_match [OF w_match w_parse]
    by (simp add: clamp_negative_eq w_fmt_5000 w_fmt_7500 td_in_range_def td_min_def td_max_def)
  from shift_line_one_line_feed [OF w_match s] s show ?thesis by blast
qed

end
